theory Spec2Isabelle
  imports Complex_Main "HOL-Library.Multiset"
begin

section \<open>Ground segmentation of a point cloud: plane frame, grid height map, floor classifier\<close>

text \<open>
  The development embeds \<^verbatim>\<open>04_dbscan_clustering.py\<close>: the function
  \<^verbatim>\<open>transform_to_plane_based_coordinates\<close>, the function \<^verbatim>\<open>calculate_height_map\<close>
  and the classification loop of the script that fills \<^verbatim>\<open>non_floor_indices\<close> and
  \<^verbatim>\<open>floor_indices\<close>.

  Numbers. The script computes in numpy's float64. Finite values are idealised as
  \<^typ>\<open>real\<close> (no rounding, no overflow), which is also how the specification states its
  data model (real-valued coordinates). The one place where the script leaves the finite
  numbers is the division by the norm of the plane normal; numpy does not raise there, it
  returns an infinity or a NaN, and the model keeps these three values apart from the
  finite ones.
\<close>

subsection \<open>Values of a float64 computation\<close>

type_synonym point = "real \<times> real \<times> real"

datatype fl = Fin real | PInf | NInf | NaN

type_synonym flpoint = "fl \<times> fl \<times> fl"

text \<open>\<open>u / v\<close> for finite \<open>u\<close> and a finite divisor \<open>v\<close> that is never negative zero
  (here a norm or its square): numpy warns on a zero divisor and returns a signed infinity,
  or NaN for \<open>0 / 0\<close>.\<close>

definition fdiv :: "real \<Rightarrow> real \<Rightarrow> fl" where
  "fdiv u v =
     (if v = 0 then (if 0 < u then PInf else if u < 0 then NInf else NaN)
      else Fin (u / v))"

text \<open>\<open>t * v\<close> for finite \<open>v\<close>: an infinity times zero is NaN.\<close>

fun fmul :: "fl \<Rightarrow> real \<Rightarrow> fl" where
  "fmul (Fin u) v = Fin (u * v)"
| "fmul PInf v = (if 0 < v then PInf else if v < 0 then NInf else NaN)"
| "fmul NInf v = (if 0 < v then NInf else if v < 0 then PInf else NaN)"
| "fmul NaN v = NaN"

text \<open>\<open>u - t\<close> for finite \<open>u\<close>.\<close>

fun fsub :: "real \<Rightarrow> fl \<Rightarrow> fl" where
  "fsub u (Fin v) = Fin (u - v)"
| "fsub u PInf = NInf"
| "fsub u NInf = PInf"
| "fsub u NaN = NaN"

subsection \<open>Plane coordinate transformer\<close>

text \<open>\<^verbatim>\<open>np.linalg.norm(np.array([a, b, c]))\<close>\<close>

definition normal_norm :: "real \<Rightarrow> real \<Rightarrow> real \<Rightarrow> real" where
  "normal_norm a b c = sqrt (a * a + b * b + c * c)"

text \<open>\<^verbatim>\<open>a * points[:, 0] + b * points[:, 1] + c * points[:, 2] + d\<close>, for one row.\<close>

definition plane_equation_value :: "real \<Rightarrow> real \<Rightarrow> real \<Rightarrow> real \<Rightarrow> point \<Rightarrow> real" where
  "plane_equation_value a b c d p = (case p of (x, y, z) \<Rightarrow> a * x + b * y + c * z + d)"

text \<open>One row of the vectorised body of \<^verbatim>\<open>transform_to_plane_based_coordinates\<close>:
  \<^verbatim>\<open>distances\<close>, the first two columns of \<^verbatim>\<open>projected_points\<close>, and \<^verbatim>\<open>new_z\<close>.\<close>

definition transform_point :: "real \<Rightarrow> real \<Rightarrow> real \<Rightarrow> real \<Rightarrow> point \<Rightarrow> flpoint" where
  "transform_point a b c d p =
     (case p of (x, y, z) \<Rightarrow>
        let distance = fdiv (plane_equation_value a b c d p) ((normal_norm a b c)\<^sup>2);
            new_x = fsub x (fmul distance a);
            new_y = fsub y (fmul distance b);
            new_z = fdiv (plane_equation_value a b c d p) (normal_norm a b c)
        in (new_x, new_y, new_z))"

text \<open>The function works on all rows at once and stacks the three columns; the result has
  one row per input row, in the input's order. It has no \<^verbatim>\<open>raise\<close>.\<close>

definition transform_to_plane_based_coordinates ::
    "point list \<Rightarrow> real \<Rightarrow> real \<Rightarrow> real \<Rightarrow> real \<Rightarrow> flpoint list" where
  "transform_to_plane_based_coordinates points a b c d = map (transform_point a b c d) points"


subsection \<open>Bucketing against ascending bin edges\<close>

text \<open>
  Both bucketing routines are numpy's; the script passes them the ascending edge arrays
  \<^verbatim>\<open>x_bins\<close>, \<^verbatim>\<open>y_bins\<close> that \<^verbatim>\<open>np.arange\<close> produced.

  \<^verbatim>\<open>np.digitize(x, bins)\<close>, for increasing bins and \<^verbatim>\<open>right=False\<close>, is documented to
  return the \<open>i\<close> with \<open>bins[i-1] \<le> x < bins[i]\<close>, \<open>0\<close> below the first edge and
  \<open>len(bins)\<close> from the last edge on: the number of edges before the first edge that is
  greater than \<open>x\<close>. The definition covers ascending edges only (numpy mirrors the result
  for descending edges and raises for edges that are not monotonic); every theorem that
  depends on it assumes the edges sorted.
\<close>

definition digitize :: "real \<Rightarrow> real list \<Rightarrow> int" where
  "digitize x bins = int (length (takeWhile (\<lambda>e. e \<le> x) bins))"

text \<open>
  \<^verbatim>\<open>np.searchsorted(a, v, side='right')\<close> is a binary search: it keeps a window
  \<open>[lo, hi)\<close>, moves \<open>lo\<close> past the middle element when that element is \<open>\<le> v\<close> and
  \<open>hi\<close> down to the middle otherwise, and returns \<open>lo\<close> when the window is empty.
\<close>

function binsearch_right :: "real list \<Rightarrow> real \<Rightarrow> nat \<Rightarrow> nat \<Rightarrow> nat" where
  "binsearch_right a v lo hi =
     (if lo < hi then
        (let mid = lo + (hi - lo) div 2 in
           if a ! mid \<le> v then binsearch_right a v (mid + 1) hi
           else binsearch_right a v lo mid)
      else lo)"
  by pat_completeness auto
termination
  by (relation "measure (\<lambda>(a, v, lo, hi). hi - lo)") auto

declare binsearch_right.simps [simp del]

definition searchsorted_right :: "real list \<Rightarrow> real \<Rightarrow> int" where
  "searchsorted_right a v = int (binsearch_right a v 0 (length a))"

type_synonym cell = "int \<times> int"

text \<open>\<^verbatim>\<open>np.digitize(points[:, 0], bins=x_bins) - 1\<close> and the same for \<open>y\<close>, for one row.\<close>

definition cell_digitize :: "real list \<Rightarrow> real list \<Rightarrow> point \<Rightarrow> cell" where
  "cell_digitize x_bins y_bins p =
     (case p of (x, y, z) \<Rightarrow> (digitize x x_bins - 1, digitize y y_bins - 1))"

text \<open>\<^verbatim>\<open>np.searchsorted(x_bins, x, side='right') - 1\<close> and the same for \<open>y\<close>.\<close>

definition cell_searchsorted :: "real list \<Rightarrow> real list \<Rightarrow> point \<Rightarrow> cell" where
  "cell_searchsorted x_bins y_bins p =
     (case p of (x, y, z) \<Rightarrow> (searchsorted_right x_bins x - 1, searchsorted_right y_bins y - 1))"

text \<open>The bounds test, written the same way in \<^verbatim>\<open>valid_mask\<close> and in the classifier.\<close>

definition valid_mask :: "real list \<Rightarrow> real list \<Rightarrow> cell \<Rightarrow> bool" where
  "valid_mask x_bins y_bins key =
     (case key of (i, j) \<Rightarrow>
        0 \<le> i \<and> i < int (length x_bins) - 1 \<and> 0 \<le> j \<and> j < int (length y_bins) - 1)"

subsection \<open>Height map builder, steps 1 to 3: the raw estimates\<close>

text \<open>The builder and the classifier are modelled on rows of finite coordinates.\<close>

text \<open>The rows that pass the mask, as the triples the grouping loop zips together: the
  height \<open>z\<close> and the cell \<open>(i, j)\<close>.\<close>

definition valid_entries :: "point list \<Rightarrow> real list \<Rightarrow> real list \<Rightarrow> (real \<times> cell) list" where
  "valid_entries points x_bins y_bins =
     map (\<lambda>p. (snd (snd p), cell_digitize x_bins y_bins p))
       (filter (\<lambda>p. valid_mask x_bins y_bins (cell_digitize x_bins y_bins p)) points)"

text \<open>A Python dict keeps its keys in insertion order: an association list with distinct
  keys. The loop body appends \<open>z\<close> to the list of an existing key, or adds the key at the
  end with the one-element list.\<close>

fun dict_append :: "'k \<Rightarrow> 'v \<Rightarrow> ('k \<times> 'v list) list \<Rightarrow> ('k \<times> 'v list) list" where
  "dict_append key z [] = [(key, [z])]"
| "dict_append key z ((k, zs) # d) =
     (if k = key then (k, zs @ [z]) # d else (k, zs) # dict_append key z d)"

definition group_by_cell :: "(real \<times> cell) list \<Rightarrow> (cell \<times> real list) list" where
  "group_by_cell entries =
     foldl (\<lambda>height_map (z, key). dict_append key z height_map) [] entries"

text \<open>\<^verbatim>\<open>max(0, int(len(sorted_z_values) * 0.05))\<close>; \<^verbatim>\<open>int\<close> truncates, which is the floor
  of a number that is not negative.\<close>

definition index_5th_percentile :: "nat \<Rightarrow> int" where
  "index_5th_percentile n = max 0 \<lfloor>real n * (5 / 100)\<rfloor>"

text \<open>The second loop of step 3, for one cell: the sorted list's element at that index,
  and \<^verbatim>\<open>None\<close> for an empty list.\<close>

definition cell_estimate :: "real list \<Rightarrow> real option" where
  "cell_estimate z_values =
     (if z_values \<noteq> [] then
        (let sorted_z_values = sort z_values
         in Some (sorted_z_values ! nat (index_5th_percentile (length sorted_z_values))))
      else None)"

definition raw_height_map ::
    "point list \<Rightarrow> real list \<Rightarrow> real list \<Rightarrow> (cell \<times> real option) list" where
  "raw_height_map points x_bins y_bins =
     map (\<lambda>(key, z_values). (key, cell_estimate z_values))
       (group_by_cell (valid_entries points x_bins y_bins))"

subsection \<open>Height map builder, step 4: smoothing against the neighbours\<close>

text \<open>The cells whose estimate is not \<^verbatim>\<open>None\<close>, in dict order: what \<^verbatim>\<open>grid_keys\<close> and
  \<^verbatim>\<open>grid_values\<close> hold, and what the smoothing loop does not skip.\<close>

fun occupied :: "(cell \<times> real option) list \<Rightarrow> (cell \<times> real) list" where
  "occupied [] = []"
| "occupied ((key, None) # height_map) = occupied height_map"
| "occupied ((key, Some h) # height_map) = (key, h) # occupied height_map"

text \<open>\<^verbatim>\<open>(bins[i] + bins[i + 1]) / 2\<close>. Every key of the height map passed the mask, so
  both reads are inside the array.\<close>

definition center :: "real list \<Rightarrow> int \<Rightarrow> real" where
  "center bins i = (bins ! nat i + bins ! nat (i + 1)) / 2"

definition cell_center :: "real list \<Rightarrow> real list \<Rightarrow> cell \<Rightarrow> real \<times> real" where
  "cell_center x_bins y_bins key = (case key of (i, j) \<Rightarrow> (center x_bins i, center y_bins j))"

datatype error = ValueError

text \<open>
  scipy's \<^verbatim>\<open>cKDTree(data)\<close> needs \<open>data\<close> of shape \<open>(n, m)\<close>. \<^verbatim>\<open>np.array\<close> of the
  empty list of centers has shape \<open>(0,)\<close>, and the constructor raises \<^verbatim>\<open>ValueError\<close>
  for it; any other list of pairs is an \<open>(n, 2)\<close> array, and the tree holds its rows.
\<close>

definition cKDTree :: "(real \<times> real) list \<Rightarrow> error + (real \<times> real) list" where
  "cKDTree data = (if data = [] then Inl ValueError else Inr data)"

text \<open>\<^verbatim>\<open>kdtree.query_ball_point(q, r)\<close>: the indices of the rows within Euclidean distance
  \<open>r\<close> of \<open>q\<close>, the boundary included (the comparison is made on the squares). The order
  of the indices is not specified by scipy; only their minimum height is used.\<close>

definition within_radius :: "real \<Rightarrow> real \<times> real \<Rightarrow> real \<times> real \<Rightarrow> bool" where
  "within_radius r q u = ((fst u - fst q)\<^sup>2 + (snd u - snd q)\<^sup>2 \<le> r\<^sup>2)"

definition query_ball_point :: "(real \<times> real) list \<Rightarrow> real \<times> real \<Rightarrow> real \<Rightarrow> nat list" where
  "query_ball_point kdtree q r =
     filter (\<lambda>idx. within_radius r q (kdtree ! idx)) [0..<length kdtree]"

definition search_radius :: real where
  "search_radius = 1"

text \<open>The body of the smoothing loop for one cell \<open>(i, j)\<close> with estimate \<open>height\<close>. It
  reads \<^verbatim>\<open>kdtree\<close> and \<^verbatim>\<open>grid_values\<close>, both built before the loop, and writes to
  \<^verbatim>\<open>processed_height_map\<close> only. The entries of \<^verbatim>\<open>grid_values\<close> are numbers, so the
  \<^verbatim>\<open>is not None\<close> filter of \<^verbatim>\<open>neighbor_heights\<close> drops nothing.\<close>

definition smooth_cell ::
    "(real \<times> real) list \<Rightarrow> real list \<Rightarrow> real list \<Rightarrow> real list \<Rightarrow> real \<Rightarrow> cell \<Rightarrow> real \<Rightarrow> real" where
  "smooth_cell kdtree grid_values x_bins y_bins threshold key height =
     (let indices = query_ball_point kdtree (cell_center x_bins y_bins key) search_radius;
          neighbor_heights = map (\<lambda>idx. grid_values ! idx) indices
      in if neighbor_heights \<noteq> [] then
           (let smallest_neighbor = min_list neighbor_heights
            in if \<bar>height - smallest_neighbor\<bar> > threshold then smallest_neighbor
               else height)
         else height)"

definition smoothing_loop ::
    "(real \<times> real) list \<Rightarrow> real list \<Rightarrow> real list \<Rightarrow> real list \<Rightarrow> real \<Rightarrow>
     (cell \<times> real) list \<Rightarrow> (cell \<times> real) list" where
  "smoothing_loop kdtree grid_values x_bins y_bins threshold items =
     map (\<lambda>(key, height). (key, smooth_cell kdtree grid_values x_bins y_bins threshold key height))
       items"

definition grid_centers :: "(cell \<times> real option) list \<Rightarrow> real list \<Rightarrow> real list \<Rightarrow> (real \<times> real) list" where
  "grid_centers height_map x_bins y_bins =
     map (cell_center x_bins y_bins) (map fst (occupied height_map))"

definition grid_values :: "(cell \<times> real option) list \<Rightarrow> real list" where
  "grid_values height_map = map snd (occupied height_map)"

text \<open>Step 4 as a function of the raw height map.\<close>

definition smooth_height_map ::
    "(cell \<times> real option) list \<Rightarrow> real list \<Rightarrow> real list \<Rightarrow> real \<Rightarrow> error + (cell \<times> real) list" where
  "smooth_height_map height_map x_bins y_bins threshold =
     (case cKDTree (grid_centers height_map x_bins y_bins) of
        Inl e \<Rightarrow> Inl e
      | Inr kdtree \<Rightarrow>
          Inr (smoothing_loop kdtree (grid_values height_map) x_bins y_bins threshold
                 (occupied height_map)))"

definition calculate_height_map ::
    "point list \<Rightarrow> real list \<Rightarrow> real list \<Rightarrow> real \<Rightarrow> error + (cell \<times> real) list" where
  "calculate_height_map points x_bins y_bins threshold =
     smooth_height_map (raw_height_map points x_bins y_bins) x_bins y_bins threshold"

subsection \<open>Floor and non-floor classifier\<close>

text \<open>The test of the classification loop for one row; \<^verbatim>\<open>height_map.get\<close> is the lookup
  in the dict that \<^verbatim>\<open>calculate_height_map\<close> returned.\<close>

definition is_non_floor ::
    "real list \<Rightarrow> real list \<Rightarrow> (cell \<times> real) list \<Rightarrow> real \<Rightarrow> point \<Rightarrow> bool" where
  "is_non_floor x_bins y_bins height_map threshold p =
     (case p of (x, y, z) \<Rightarrow>
        let x_idx = searchsorted_right x_bins x - 1;
            y_idx = searchsorted_right y_bins y - 1
        in if 0 \<le> x_idx \<and> x_idx < int (length x_bins) - 1 \<and>
              0 \<le> y_idx \<and> y_idx < int (length y_bins) - 1
           then (case map_of height_map (x_idx, y_idx) of
                   None \<Rightarrow> False
                 | Some smoothed_height \<Rightarrow> \<bar>z - smoothed_height\<bar> > threshold)
           else False)"

definition non_floor_indices ::
    "point list \<Rightarrow> real list \<Rightarrow> real list \<Rightarrow> (cell \<times> real) list \<Rightarrow> real \<Rightarrow> nat list" where
  "non_floor_indices points x_bins y_bins height_map threshold =
     map fst (filter (\<lambda>(idx, p). is_non_floor x_bins y_bins height_map threshold p)
       (enumerate 0 points))"

text \<open>\<^verbatim>\<open>set(range(len(transformed_points))) - set(non_floor_indices)\<close>\<close>

definition floor_indices ::
    "point list \<Rightarrow> real list \<Rightarrow> real list \<Rightarrow> (cell \<times> real) list \<Rightarrow> real \<Rightarrow> nat set" where
  "floor_indices points x_bins y_bins height_map threshold =
     set [0..<length points] - set (non_floor_indices points x_bins y_bins height_map threshold)"

subsection \<open>Notions of the specification that the script does not compute\<close>

text \<open>The heights that the grouping loop collects under a key: those of the rows that
  pass the mask and are bucketed to that key, in input order.\<close>

definition cell_z_values :: "point list \<Rightarrow> real list \<Rightarrow> real list \<Rightarrow> cell \<Rightarrow> real list" where
  "cell_z_values points x_bins y_bins key =
     map fst (filter (\<lambda>e. snd e = key) (valid_entries points x_bins y_bins))"

text \<open>Cell membership as the specification's data model states it: a point falls in cell
  \<open>(i, j)\<close> iff its \<open>x\<close> lies in \<open>[x_bins[i], x_bins[i+1])\<close> and its \<open>y\<close> in
  \<open>[y_bins[j], y_bins[j+1])\<close>. A cell is occupied when a point of the frame falls in it, and
  the \<open>z'\<close>-values it holds are the heights of those points, in input order.\<close>

definition in_cell :: "real list \<Rightarrow> real list \<Rightarrow> cell \<Rightarrow> point \<Rightarrow> bool" where
  "in_cell x_bins y_bins key p =
     (case key of (i, j) \<Rightarrow> case p of (x, y, z) \<Rightarrow>
        0 \<le> i \<and> nat i + 1 < length x_bins \<and>
        x_bins ! nat i \<le> x \<and> x < x_bins ! (nat i + 1) \<and>
        0 \<le> j \<and> nat j + 1 < length y_bins \<and>
        y_bins ! nat j \<le> y \<and> y < y_bins ! (nat j + 1))"

definition cell_heights :: "point list \<Rightarrow> real list \<Rightarrow> real list \<Rightarrow> cell \<Rightarrow> real list" where
  "cell_heights points x_bins y_bins key =
     map (\<lambda>p. snd (snd p)) (filter (in_cell x_bins y_bins key) points)"

text \<open>The median of a non-empty list of values, used to bound the raw estimate.\<close>

definition median :: "real list \<Rightarrow> real" where
  "median zs =
     (let s = sort zs; n = length zs
      in if odd n then s ! (n div 2) else (s ! (n div 2 - 1) + s ! (n div 2)) / 2)"

text \<open>The grid extent: from the first edge, inclusive, to the last edge, exclusive, on
  both axes.\<close>

definition in_grid_extent :: "real list \<Rightarrow> real list \<Rightarrow> point \<Rightarrow> bool" where
  "in_grid_extent x_bins y_bins p =
     (case p of (x, y, z) \<Rightarrow>
        x_bins \<noteq> [] \<and> y_bins \<noteq> [] \<and> hd x_bins \<le> x \<and> x < last x_bins \<and>
        hd y_bins \<le> y \<and> y < last y_bins)"

text \<open>The minimum raw estimate over the occupied cells whose center lies within distance
  \<open>r\<close> of the center of cell \<open>key\<close>.\<close>

definition neighbourhood_min ::
    "real \<Rightarrow> (cell \<times> real) list \<Rightarrow> real list \<Rightarrow> real list \<Rightarrow> cell \<Rightarrow> real" where
  "neighbourhood_min r grid x_bins y_bins key =
     Min (snd ` {e \<in> set grid.
       within_radius r (cell_center x_bins y_bins key) (cell_center x_bins y_bins (fst e))})"

text \<open>The excluded points of the classifier: those whose cell is outside the grid bounds
  or has no estimate in the height map.\<close>

definition excluded_indices ::
    "point list \<Rightarrow> real list \<Rightarrow> real list \<Rightarrow> (cell \<times> real) list \<Rightarrow> nat set" where
  "excluded_indices points x_bins y_bins height_map =
     set (filter
       (\<lambda>idx. if valid_mask x_bins y_bins (cell_searchsorted x_bins y_bins (points ! idx))
              then map_of height_map (cell_searchsorted x_bins y_bins (points ! idx)) = None
              else True)
       [0..<length points])"

section \<open>Theorems\<close>

subsection \<open>Plane coordinate transformer\<close>

lemma normal_norm_sq: "(normal_norm a b c)\<^sup>2 = a * a + b * b + c * c"
  unfolding normal_norm_def
  by simp

lemma normal_norm_pos_iff: "0 < normal_norm a b c \<longleftrightarrow> (a, b, c) \<noteq> (0, 0, 0)"
proof -
  have "0 < a * a + b * b + c * c \<longleftrightarrow> \<not> (a = 0 \<and> b = 0 \<and> c = 0)"
    by (metis add_nonneg_eq_0_iff less_eq_real_def mult_eq_0_iff not_less zero_le_square add_nonneg_nonneg)
  then show ?thesis
    unfolding normal_norm_def by simp
qed

lemma fdiv_Fin: "v \<noteq> 0 \<Longrightarrow> fdiv u v = Fin (u / v)"
  by (simp add: fdiv_def)

lemma transform_point_nonzero:
  assumes "(a, b, c) \<noteq> (0, 0, 0)"
  shows "transform_point a b c d (x, y, z) =
    (Fin (x - (a * x + b * y + c * z + d) / (a * a + b * b + c * c) * a),
     Fin (y - (a * x + b * y + c * z + d) / (a * a + b * b + c * c) * b),
     Fin ((a * x + b * y + c * z + d) / sqrt (a * a + b * b + c * c)))"
proof -
  have pos: "0 < normal_norm a b c"
    using assms normal_norm_pos_iff [of a b c] by blast
  then have n1: "normal_norm a b c \<noteq> 0" and n2: "(normal_norm a b c)\<^sup>2 \<noteq> 0"
    by simp_all
  from n2 have n3: "a * a + b * b + c * c \<noteq> 0"
    unfolding normal_norm_sq .
  have "fdiv s ((normal_norm a b c)\<^sup>2) = Fin (s / (a * a + b * b + c * c))" for s
    by (simp only: normal_norm_sq fdiv_Fin [OF n3])
  moreover have "fdiv s (normal_norm a b c) = Fin (s / sqrt (a * a + b * b + c * c))" for s
    using fdiv_Fin [OF n1] by (simp only: normal_norm_def)
  ultimately show ?thesis
    unfolding transform_point_def plane_equation_value_def
    by (simp add: Let_def)
qed

text \<open>
  Claim C1. For a frame of N points and a plane whose normal \<open>(a, b, c)\<close> is not zero, the
  transformer returns N points, the i-th from the i-th input point \<open>p = (x, y, z)\<close>: with
  \<open>s = a x + b y + c z + d\<close> and \<open>n2 = a\<^sup>2 + b\<^sup>2 + c\<^sup>2\<close> the output is finite and equals
  \<open>(x - (s / n2) a, y - (s / n2) b, s / sqrt n2)\<close>, that is the first two coordinates of
  \<open>p - (s / n2) n\<close> and the signed distance. The third coordinate has the sign of \<open>s\<close>,
  and a point on the plane (\<open>s = 0\<close>) is mapped to \<open>(x, y, 0)\<close>.
\<close>

theorem transform_to_plane_based_coordinates_spec:
  assumes "(a, b, c) \<noteq> (0, 0, 0)"
  shows "length (transform_to_plane_based_coordinates points a b c d) = length points \<and>
    (\<forall>i < length points.
       case points ! i of (x, y, z) \<Rightarrow>
         let s = a * x + b * y + c * z + d; n2 = a * a + b * b + c * c in
           transform_to_plane_based_coordinates points a b c d ! i =
             (Fin (x - s / n2 * a), Fin (y - s / n2 * b), Fin (s / sqrt n2)) \<and>
           sgn (s / sqrt n2) = sgn s \<and>
           (s = 0 \<longrightarrow>
              transform_to_plane_based_coordinates points a b c d ! i = (Fin x, Fin y, Fin 0)))"
proof -
  have pos: "0 < sqrt (a * a + b * b + c * c)"
    using assms normal_norm_pos_iff [of a b c] by (simp add: normal_norm_def)
  have sg: "sgn (s / sqrt (a * a + b * b + c * c)) = sgn s" for s :: real
    using pos by (simp del: real_sqrt_gt_0_iff)
  show ?thesis
    unfolding transform_to_plane_based_coordinates_def
    using sg by (auto simp: Let_def transform_point_nonzero [OF assms] split: prod.splits)
qed

theorem transform_to_plane_based_coordinates_spec_witness:
  "((0::real), (0::real), (2::real)) \<noteq> (0, 0, 0) \<and>
   length (transform_to_plane_based_coordinates [(1, 2, 3), (4, 5, 1)] 0 0 2 (- 2)) = 2 \<and>
   transform_to_plane_based_coordinates [(1, 2, 3), (4, 5, 1)] 0 0 2 (- 2) ! 0
     = (Fin 1, Fin 2, Fin 2) \<and>
   transform_to_plane_based_coordinates [(1, 2, 3), (4, 5, 1)] 0 0 2 (- 2) ! 1
     = (Fin 4, Fin 5, Fin 0)"
proof -
  have h: "((0::real), (0::real), (2::real)) \<noteq> (0, 0, 0)" by simp
  note t = transform_to_plane_based_coordinates_spec [OF h, of "[(1, 2, 3), (4, 5, 1)]" "- 2"]
  show ?thesis
    using t [THEN conjunct1] t [THEN conjunct2, THEN spec, of 0]
      t [THEN conjunct2, THEN spec, of 1]
    by (simp add: Let_def)
qed

text \<open>
  Claim C7 does not hold: the function has no check of the normal and no \<^verbatim>\<open>raise\<close>. With
  \<open>a = b = c = 0\<close> the norm is zero, both divisions are divisions by zero, and numpy returns
  non-finite values instead of failing: the call returns one output row per input row.
\<close>

theorem degenerate_plane_counterexample:
  "transform_to_plane_based_coordinates [(1, 2, 3), (4, 5, 6)] 0 0 0 5
     = [(NaN, NaN, PInf), (NaN, NaN, PInf)]"
  by (simp add: transform_to_plane_based_coordinates_def transform_point_def
      plane_equation_value_def normal_norm_def fdiv_def)

text \<open>
  Claim C7 as amended. With a zero normal the transformer raises nothing and returns N
  index-aligned rows, none of them finite: \<open>x'\<close> and \<open>y'\<close> are NaN, and \<open>z'\<close> is
  \<open>+inf\<close>, \<open>-inf\<close> or NaN as \<open>d\<close> is positive, negative or zero.
\<close>

theorem transform_to_plane_based_coordinates_degenerate:
  "transform_to_plane_based_coordinates points 0 0 0 d =
     replicate (length points)
       (NaN, NaN, if 0 < d then PInf else if d < 0 then NInf else NaN)"
  by (induction points)
    (simp_all add: transform_to_plane_based_coordinates_def transform_point_def
      plane_equation_value_def normal_norm_def fdiv_def split: prod.splits)

subsection \<open>The two bucketing routines agree\<close>


lemma length_takeWhile_eqI:
  assumes "r \<le> length xs" "\<And>i. i < r \<Longrightarrow> P (xs ! i)" "r < length xs \<Longrightarrow> \<not> P (xs ! r)"
  shows "length (takeWhile P xs) = r"
proof -
  have "takeWhile P xs = take r xs"
    using assms by (intro takeWhile_eq_take_P_nth) auto
  then show ?thesis using assms(1) by simp
qed

lemma binsearch_right_count:
  assumes "sorted a" "lo \<le> hi" "hi \<le> length a"
    and "\<And>i. i < lo \<Longrightarrow> a ! i \<le> v"
    and "\<And>i. hi \<le> i \<Longrightarrow> i < length a \<Longrightarrow> v < a ! i"
  shows "binsearch_right a v lo hi = length (takeWhile (\<lambda>e. e \<le> v) a)"
  using assms
proof (induction a v lo hi rule: binsearch_right.induct)
  case (1 a v lo hi)
  show ?case
  proof (cases "lo < hi")
    case False
    with "1.prems" have eq: "lo = hi" by simp
    have "length (takeWhile (\<lambda>e. e \<le> v) a) = lo"
    proof (rule length_takeWhile_eqI)
      show "lo \<le> length a" using eq "1.prems" by simp
      show "a ! i \<le> v" if "i < lo" for i using that "1.prems" by simp
      show "\<not> a ! lo \<le> v" if "lo < length a"
        using that "1.prems"(5) [of lo] eq by simp
    qed
    with False show ?thesis
      by (subst binsearch_right.simps) simp
  next
    case True
    define mid where "mid = lo + (hi - lo) div 2"
    have mid: "lo \<le> mid" "mid < hi" using True by (auto simp: mid_def)
    show ?thesis
    proof (cases "a ! mid \<le> v")
      case le: True
      have "binsearch_right a v (mid + 1) hi = length (takeWhile (\<lambda>e. e \<le> v) a)"
      proof (rule "1.IH"(1) [OF True mid_def le])
        show "sorted a" by fact
        show "mid + 1 \<le> hi" using mid by simp
        show "hi \<le> length a" by fact
        show "a ! i \<le> v" if "i < mid + 1" for i
        proof -
          have "a ! i \<le> a ! mid"
            using that mid "1.prems"(1,3) by (intro sorted_nth_mono) auto
          with le show ?thesis by simp
        qed
        show "v < a ! i" if "hi \<le> i" "i < length a" for i
          using that "1.prems"(5) by simp
      qed
      with True le show ?thesis
        by (subst binsearch_right.simps) (simp add: mid_def Let_def)
    next
      case gt: False
      have "binsearch_right a v lo mid = length (takeWhile (\<lambda>e. e \<le> v) a)"
      proof (rule "1.IH"(2) [OF True mid_def gt])
        show "sorted a" by fact
        show "lo \<le> mid" using mid by simp
        show "mid \<le> length a" using mid "1.prems"(3) by simp
        show "a ! i \<le> v" if "i < lo" for i using that "1.prems"(4) by simp
        show "v < a ! i" if "mid \<le> i" "i < length a" for i
        proof -
          have "a ! mid \<le> a ! i"
            using that "1.prems"(1) by (intro sorted_nth_mono) auto
          with gt show ?thesis by simp
        qed
      qed
      with True gt show ?thesis
        by (subst binsearch_right.simps) (simp add: mid_def Let_def)
    qed
  qed
qed

lemma searchsorted_right_eq_digitize:
  "sorted bins \<Longrightarrow> searchsorted_right bins x = digitize x bins"
  unfolding searchsorted_right_def digitize_def
  using binsearch_right_count [of bins 0 "length bins" x] by simp

lemma digitize_bounds: "0 \<le> digitize x bins" "digitize x bins \<le> int (length bins)"
  by (simp_all add: digitize_def length_takeWhile_le)

lemma digitize_below:
  assumes "int i < digitize x bins"
  shows "bins ! i \<le> x"
proof -
  from assms have i: "i < length (takeWhile (\<lambda>e. e \<le> x) bins)"
    by (simp add: digitize_def)
  then have "takeWhile (\<lambda>e. e \<le> x) bins ! i \<in> set (takeWhile (\<lambda>e. e \<le> x) bins)"
    by (rule nth_mem)
  then have "takeWhile (\<lambda>e. e \<le> x) bins ! i \<le> x"
    by (rule set_takeWhileD [THEN conjunct2])
  with i show ?thesis by (simp add: takeWhile_nth)
qed

lemma digitize_above:
  assumes "sorted bins" "digitize x bins \<le> int i" "i < length bins"
  shows "x < bins ! i"
proof -
  let ?r = "length (takeWhile (\<lambda>e. e \<le> x) bins)"
  from assms have r: "?r \<le> i" "?r < length bins"
    by (simp_all add: digitize_def)
  then have "\<not> bins ! ?r \<le> x"
    using nth_length_takeWhile [of "\<lambda>e. e \<le> x" bins] by simp
  moreover have "bins ! ?r \<le> bins ! i"
    using assms(1,3) r by (intro sorted_nth_mono) auto
  ultimately show ?thesis by simp
qed

lemma digitize_eqI:
  assumes "r \<le> length bins" "\<And>i. i < r \<Longrightarrow> bins ! i \<le> x" "r < length bins \<Longrightarrow> x < bins ! r"
  shows "digitize x bins = int r"
  unfolding digitize_def
  using assms by (simp add: length_takeWhile_eqI not_le)

text \<open>Right-open interval membership, for ascending edges.\<close>

lemma digitize_cell_iff:
  assumes "sorted bins" "i + 1 < length bins"
  shows "digitize x bins - 1 = int i \<longleftrightarrow> bins ! i \<le> x \<and> x < bins ! (i + 1)"
proof
  assume "digitize x bins - 1 = int i"
  then have d: "digitize x bins = int (i + 1)" by simp
  then show "bins ! i \<le> x \<and> x < bins ! (i + 1)"
    using digitize_below [of i x bins] digitize_above [OF assms(1), of x "i + 1"] assms(2)
    by simp
next
  assume h: "bins ! i \<le> x \<and> x < bins ! (i + 1)"
  have "digitize x bins = int (i + 1)"
  proof (rule digitize_eqI)
    show "i + 1 \<le> length bins" using assms(2) by simp
    show "bins ! k \<le> x" if "k < i + 1" for k
    proof -
      have "bins ! k \<le> bins ! i"
        using that assms by (intro sorted_nth_mono) auto
      with h show ?thesis by simp
    qed
    show "x < bins ! (i + 1)" using h by simp
  qed
  then show "digitize x bins - 1 = int i" by simp
qed

lemma digitize_in_bounds_iff:
  assumes "sorted bins"
  shows "0 \<le> digitize x bins - 1 \<and> digitize x bins - 1 < int (length bins) - 1
     \<longleftrightarrow> bins \<noteq> [] \<and> hd bins \<le> x \<and> x < last bins"
proof (cases "bins = []")
  case True
  then show ?thesis by (simp add: digitize_def)
next
  case False
  then have len: "0 < length bins" by simp
  have lo: "0 \<le> digitize x bins - 1 \<longleftrightarrow> hd bins \<le> x"
  proof
    assume "0 \<le> digitize x bins - 1"
    then have "int 0 < digitize x bins" by simp
    then have "bins ! 0 \<le> x" by (rule digitize_below)
    then show "hd bins \<le> x" using False by (simp add: hd_conv_nth)
  next
    assume "hd bins \<le> x"
    then show "0 \<le> digitize x bins - 1"
      using False by (cases bins) (simp_all add: digitize_def)
  qed
  have hi: "digitize x bins - 1 < int (length bins) - 1 \<longleftrightarrow> x < last bins"
  proof
    assume "digitize x bins - 1 < int (length bins) - 1"
    then have "digitize x bins \<le> int (length bins - 1)" using len by simp
    then have "x < bins ! (length bins - 1)"
      using assms len by (intro digitize_above) auto
    then show "x < last bins" using False by (simp add: last_conv_nth)
  next
    assume "x < last bins"
    then have "\<not> bins ! (length bins - 1) \<le> x"
      using False by (simp add: last_conv_nth)
    then have "\<not> int (length bins - 1) < digitize x bins"
      using digitize_below [of "length bins - 1" x bins] by blast
    then show "digitize x bins - 1 < int (length bins) - 1"
      using len by simp
  qed
  from lo hi False show ?thesis by simp
qed

lemma digitize_edge:
  assumes "sorted_wrt (<) bins" "k < length bins"
  shows "digitize (bins ! k) bins = int k + 1"
proof -
  have "digitize (bins ! k) bins = int (k + 1)"
  proof (rule digitize_eqI)
    show "k + 1 \<le> length bins" using assms(2) by simp
    show "bins ! i \<le> bins ! k" if "i < k + 1" for i
    proof (cases "i = k")
      case False
      with that have "i < k" by simp
      then have "bins ! i < bins ! k"
        using assms by (simp add: sorted_wrt_nth_less)
      then show ?thesis by simp
    qed simp
    show "bins ! k < bins ! (k + 1)" if "k + 1 < length bins"
      using that assms(1) by (simp add: sorted_wrt_nth_less)
  qed
  then show ?thesis by simp
qed

lemma strict_sorted_imp_sorted_real: "sorted_wrt (<) (bins :: real list) \<Longrightarrow> sorted bins"
  by (rule strict_sorted_imp_sorted)

lemma valid_mask_digitize_iff:
  assumes "sorted x_bins" "sorted y_bins"
  shows "valid_mask x_bins y_bins (cell_digitize x_bins y_bins p) \<longleftrightarrow> in_grid_extent x_bins y_bins p"
proof -
  obtain x y z where p: "p = (x, y, z)" by (cases p)
  show ?thesis
    using digitize_in_bounds_iff [OF assms(1), of x] digitize_in_bounds_iff [OF assms(2), of y]
    unfolding p valid_mask_def cell_digitize_def in_grid_extent_def
    by auto
qed

lemma cell_searchsorted_eq_cell_digitize:
  "sorted x_bins \<Longrightarrow> sorted y_bins \<Longrightarrow>
     cell_searchsorted x_bins y_bins p = cell_digitize x_bins y_bins p"
  by (simp add: cell_searchsorted_def cell_digitize_def searchsorted_right_eq_digitize
      split: prod.splits)

text \<open>
  Claim C8. For strictly ascending edges the builder's bucketing (\<^verbatim>\<open>np.digitize\<close>) and
  the classifier's bucketing (\<^verbatim>\<open>np.searchsorted\<close>, \<^verbatim>\<open>side='right'\<close>) compute the same
  cell for every point, in range or not, so the same points pass the bounds test in both. A
  coordinate that equals the edge of index \<open>k\<close> gets index \<open>k\<close> from both, the cell that
  starts at that edge and the higher-indexed of the two cells that meet there. (For the
  last edge that index is \<open>len(bins) - 1\<close>, which the bounds test of both routines
  rejects.)
\<close>

theorem bucketing_consistent:
  assumes "sorted_wrt (<) x_bins" "sorted_wrt (<) y_bins"
  shows "(\<forall>p. cell_digitize x_bins y_bins p = cell_searchsorted x_bins y_bins p) \<and>
    (\<forall>k y z. k < length x_bins \<longrightarrow>
       fst (cell_digitize x_bins y_bins (x_bins ! k, y, z)) = int k \<and>
       fst (cell_searchsorted x_bins y_bins (x_bins ! k, y, z)) = int k) \<and>
    (\<forall>k x z. k < length y_bins \<longrightarrow>
       snd (cell_digitize x_bins y_bins (x, y_bins ! k, z)) = int k \<and>
       snd (cell_searchsorted x_bins y_bins (x, y_bins ! k, z)) = int k)"
proof -
  have sx: "sorted x_bins" and sy: "sorted y_bins"
    using assms by (simp_all add: strict_sorted_imp_sorted)
  have eq: "cell_searchsorted x_bins y_bins p = cell_digitize x_bins y_bins p" for p
    by (rule cell_searchsorted_eq_cell_digitize [OF sx sy])
  have ex: "fst (cell_digitize x_bins y_bins (x_bins ! k, y, z)) = int k"
    if "k < length x_bins" for k y z
    using digitize_edge [OF assms(1) that] by (simp add: cell_digitize_def)
  have ey: "snd (cell_digitize x_bins y_bins (x, y_bins ! k, z)) = int k"
    if "k < length y_bins" for k x z
    using digitize_edge [OF assms(2) that] by (simp add: cell_digitize_def)
  show ?thesis
    using ex ey by (simp add: eq)
qed

theorem bucketing_consistent_witness:
  "sorted_wrt (<) [0, 1, 2 :: real] \<and> sorted_wrt (<) [0, 1 :: real] \<and>
   cell_digitize [0, 1, 2] [0, 1] (1, 1 / 2, 7) = (1, 0) \<and>
   cell_searchsorted [0, 1, 2] [0, 1] (1, 1 / 2, 7) = (1, 0) \<and>
   fst (cell_searchsorted [0, 1, 2] [0, 1] ([0, 1, 2] ! 2, 1 / 2, 7)) = 2"
proof -
  have h1: "sorted_wrt (<) [0, 1, 2 :: real]" and h2: "sorted_wrt (<) [0, 1 :: real]"
    by simp_all
  note t = bucketing_consistent [OF h1 h2]
  have e: "cell_searchsorted [0, 1, 2] [0, 1] (1, 1 / 2, 7) = (1, 0)"
    by code_simp
  have "(2::nat) < length [0, 1, 2 :: real]" by simp
  then have "fst (cell_searchsorted [0, 1, 2] [0, 1] ([0, 1, 2] ! 2, 1 / 2, 7)) = int 2"
    using t [THEN conjunct2, THEN conjunct1] by blast
  then show ?thesis
    using t [THEN conjunct1, THEN spec, of "(1, 1 / 2, 7)"] e h1 h2 by simp
qed

subsection \<open>Raw estimates\<close>


lemma map_of_dict_append:
  "map_of (dict_append key z d) =
     (map_of d)(key \<mapsto> (case map_of d key of None \<Rightarrow> [z] | Some zs \<Rightarrow> zs @ [z]))"
  by (induction d) (auto simp: fun_eq_iff)

lemma keys_dict_append:
  "map fst (dict_append key z d) =
     (if key \<in> set (map fst d) then map fst d else map fst d @ [key])"
  by (induction d) force+

lemma distinct_dict_append:
  "distinct (map fst d) \<Longrightarrow> distinct (map fst (dict_append key z d))"
  by (simp add: keys_dict_append)

lemma group_by_cell_snoc:
  "group_by_cell (entries @ [(z, key)]) = dict_append key z (group_by_cell entries)"
  by (simp add: group_by_cell_def)

lemma distinct_group_by_cell: "distinct (map fst (group_by_cell entries))"
proof (induction entries rule: rev_induct)
  case Nil
  then show ?case by (simp add: group_by_cell_def)
next
  case (snoc e entries)
  then show ?case
    by (cases e) (simp add: group_by_cell_snoc distinct_dict_append)
qed

text \<open>The heights of the entries of one cell, in input order.\<close>

lemma map_of_group_by_cell:
  "map_of (group_by_cell entries) key =
     (if key \<in> snd ` set entries then Some (map fst (filter (\<lambda>e. snd e = key) entries))
      else None)"
proof (induction entries rule: rev_induct)
  case Nil
  then show ?case by (simp add: group_by_cell_def)
next
  case (snoc e entries)
  obtain z k where e: "e = (z, k)" by (cases e)
  show ?case
    unfolding e group_by_cell_snoc map_of_dict_append
    using snoc.IH by (force simp: image_iff filter_empty_conv)
qed

lemma group_by_cell_member:
  "(key, zs) \<in> set (group_by_cell entries) \<longleftrightarrow>
     key \<in> snd ` set entries \<and> zs = map fst (filter (\<lambda>e. snd e = key) entries)"
proof -
  have "(key, zs) \<in> set (group_by_cell entries) \<longleftrightarrow> map_of (group_by_cell entries) key = Some zs"
    using distinct_group_by_cell by (simp add: map_of_eq_Some_iff)
  then show ?thesis
    by (auto simp: map_of_group_by_cell)
qed

lemma group_by_cell_nonempty:
  assumes "(key, zs) \<in> set (group_by_cell entries)"
  shows "zs \<noteq> []"
proof -
  from assms obtain z where "(z, key) \<in> set entries"
    and zs: "zs = map fst (filter (\<lambda>e. snd e = key) entries)"
    by (auto simp: group_by_cell_member)
  then show ?thesis unfolding zs by (force simp: filter_empty_conv)
qed

lemma index_5th_percentile_eq: "index_5th_percentile n = int (n div 20)"
proof -
  have "real n * (5 / 100) = real n / real 20" by simp
  then have "\<lfloor>real n * (5 / 100)\<rfloor> = int (n div 20)"
    by (simp only: floor_divide_of_nat_eq)
  then show ?thesis by (simp add: index_5th_percentile_def)
qed

lemma raw_height_map_member:
  "(key, v) \<in> set (raw_height_map points x_bins y_bins) \<longleftrightarrow>
     key \<in> snd ` set (valid_entries points x_bins y_bins) \<and>
     v = cell_estimate (cell_z_values points x_bins y_bins key)"
proof -
  let ?es = "valid_entries points x_bins y_bins"
  have "(key, v) \<in> set (raw_height_map points x_bins y_bins) \<longleftrightarrow>
      (\<exists>zs. (key, zs) \<in> set (group_by_cell ?es) \<and> v = cell_estimate zs)"
    unfolding raw_height_map_def by force
  also have "\<dots> \<longleftrightarrow> key \<in> snd ` set ?es \<and>
      v = cell_estimate (map fst (filter (\<lambda>e. snd e = key) ?es))"
    unfolding group_by_cell_member by blast
  finally show ?thesis
    unfolding cell_z_values_def .
qed

lemma cell_z_values_nonempty:
  assumes "key \<in> snd ` set (valid_entries points x_bins y_bins)"
  shows "cell_z_values points x_bins y_bins key \<noteq> []"
  using assms unfolding cell_z_values_def by (force simp: filter_empty_conv)

lemma cell_estimate_nonempty:
  "zs \<noteq> [] \<Longrightarrow> cell_estimate zs = Some (sort zs ! (length zs div 20))"
  by (simp add: cell_estimate_def index_5th_percentile_eq)

lemma percentile_ge_Min:
  assumes "zs \<noteq> []"
  shows "Min (set zs) \<le> sort zs ! (length zs div 20)"
proof -
  have "length zs div 20 < length (sort zs)"
    using assms by (simp add: div_less_dividend)
  then have "sort zs ! (length zs div 20) \<in> set (sort zs)"
    by (rule nth_mem)
  then show ?thesis by simp
qed

lemma percentile_le_median:
  assumes "zs \<noteq> []"
  shows "sort zs ! (length zs div 20) \<le> median zs"
proof -
  let ?s = "sort zs" and ?n = "length zs"
  have n: "0 < ?n" using assms by simp
  have srt: "sorted ?s" by simp
  show ?thesis
  proof (cases "odd ?n")
    case True
    have "?s ! (?n div 20) \<le> ?s ! (?n div 2)"
      using n by (intro sorted_nth_mono [OF srt]) auto
    with True show ?thesis by (simp add: median_def Let_def)
  next
    case False
    then have n2: "2 \<le> ?n" using n by presburger
    have "?s ! (?n div 20) \<le> ?s ! (?n div 2 - 1)"
      using n2 by (intro sorted_nth_mono [OF srt]) auto
    moreover have "?s ! (?n div 2 - 1) \<le> ?s ! (?n div 2)"
      using n2 by (intro sorted_nth_mono [OF srt]) auto
    ultimately have "?s ! (?n div 20) \<le> (?s ! (?n div 2 - 1) + ?s ! (?n div 2)) / 2"
      by simp
    with False show ?thesis by (simp add: median_def Let_def)
  qed
qed

lemma digitize_cell_bounds_iff:
  assumes "sorted bins"
  shows "(0 \<le> digitize x bins - 1 \<and> digitize x bins - 1 < int (length bins) - 1 \<and>
          digitize x bins - 1 = c) \<longleftrightarrow>
         (0 \<le> c \<and> nat c + 1 < length bins \<and> bins ! nat c \<le> x \<and> x < bins ! (nat c + 1))"
proof
  assume h: "0 \<le> digitize x bins - 1 \<and> digitize x bins - 1 < int (length bins) - 1 \<and>
          digitize x bins - 1 = c"
  then have c: "0 \<le> c" and i: "nat c + 1 < length bins" by linarith+
  from h c have "digitize x bins - 1 = int (nat c)" by simp
  then have "bins ! nat c \<le> x \<and> x < bins ! (nat c + 1)"
    by (simp only: digitize_cell_iff [OF assms i])
  with c i show "0 \<le> c \<and> nat c + 1 < length bins \<and> bins ! nat c \<le> x \<and> x < bins ! (nat c + 1)"
    by blast
next
  assume h: "0 \<le> c \<and> nat c + 1 < length bins \<and> bins ! nat c \<le> x \<and> x < bins ! (nat c + 1)"
  then have i: "nat c + 1 < length bins" by blast
  from h have "digitize x bins - 1 = int (nat c)"
    by (simp only: digitize_cell_iff [OF assms i])
  with h show "0 \<le> digitize x bins - 1 \<and> digitize x bins - 1 < int (length bins) - 1 \<and>
          digitize x bins - 1 = c"
    by auto
qed

lemma in_cell_iff:
  assumes "sorted x_bins" "sorted y_bins"
  shows "in_cell x_bins y_bins key p \<longleftrightarrow>
     valid_mask x_bins y_bins (cell_digitize x_bins y_bins p) \<and>
     cell_digitize x_bins y_bins p = key"
proof -
  obtain i j where key: "key = (i, j)" by (cases key)
  obtain x y z where p: "p = (x, y, z)" by (cases p)
  show ?thesis
    unfolding key p in_cell_def valid_mask_def cell_digitize_def prod.case
    using digitize_cell_bounds_iff [OF assms(1), of x i]
      digitize_cell_bounds_iff [OF assms(2), of y j]
    by auto
qed

lemma cell_z_values_eq_cell_heights:
  assumes "sorted x_bins" "sorted y_bins"
  shows "cell_z_values points x_bins y_bins key = cell_heights points x_bins y_bins key"
proof -
  have "cell_z_values points x_bins y_bins key =
      map (\<lambda>p. snd (snd p))
        (filter (\<lambda>p. valid_mask x_bins y_bins (cell_digitize x_bins y_bins p) \<and>
                     cell_digitize x_bins y_bins p = key) points)"
    unfolding cell_z_values_def valid_entries_def
    by (simp add: filter_map comp_def conj_commute)
  moreover have "in_cell x_bins y_bins key =
      (\<lambda>p. valid_mask x_bins y_bins (cell_digitize x_bins y_bins p) \<and>
                     cell_digitize x_bins y_bins p = key)"
    by (rule ext) (rule in_cell_iff [OF assms])
  ultimately show ?thesis
    unfolding cell_heights_def by (simp only:)
qed

lemma occupied_cell_iff:
  assumes "sorted x_bins" "sorted y_bins"
  shows "(\<exists>p \<in> set points. in_cell x_bins y_bins key p) \<longleftrightarrow>
     key \<in> snd ` set (valid_entries points x_bins y_bins)"
  unfolding in_cell_iff [OF assms] valid_entries_def
  by (auto simp: image_iff)

lemma keys_raw_height_map:
  "map fst (raw_height_map points x_bins y_bins) =
     map fst (group_by_cell (valid_entries points x_bins y_bins))"
  unfolding raw_height_map_def by (induction "group_by_cell (valid_entries points x_bins y_bins)") auto

text \<open>
  Claim C3. For ascending edges, the keys of the raw height map are distinct and are
  exactly the occupied cells. For every occupied cell, holding the \<open>n > 0\<close> values
  \<open>zs\<close>, the map's estimate is the element of the ascending sort of \<open>zs\<close> at rank
  \<open>max 0 \<lfloor>0.05 n\<rfloor>\<close>, which is \<open>n div 20\<close>. That element is at least the minimum and
  at most the median of \<open>zs\<close>.
\<close>

theorem raw_estimate_percentile:
  assumes "sorted x_bins" "sorted y_bins"
  shows "distinct (map fst (raw_height_map points x_bins y_bins)) \<and>
    (\<forall>key. (\<exists>p \<in> set points. in_cell x_bins y_bins key p) \<longleftrightarrow>
        key \<in> fst ` set (raw_height_map points x_bins y_bins)) \<and>
    (\<forall>key. (\<exists>p \<in> set points. in_cell x_bins y_bins key p) \<longrightarrow>
       (let zs = cell_heights points x_bins y_bins key; n = length zs in
          0 < n \<and>
          map_of (raw_height_map points x_bins y_bins) key =
            Some (Some (sort zs ! nat (max 0 \<lfloor>real n * (5 / 100)\<rfloor>))) \<and>
          nat (max 0 \<lfloor>real n * (5 / 100)\<rfloor>) = n div 20 \<and>
          Min (set zs) \<le> sort zs ! nat (max 0 \<lfloor>real n * (5 / 100)\<rfloor>) \<and>
          sort zs ! nat (max 0 \<lfloor>real n * (5 / 100)\<rfloor>) \<le> median zs))"
proof -
  let ?raw = "raw_height_map points x_bins y_bins"
  let ?es = "valid_entries points x_bins y_bins"
  have dist: "distinct (map fst ?raw)"
    by (simp only: keys_raw_height_map distinct_group_by_cell)
  have keys: "key \<in> fst ` set ?raw \<longleftrightarrow> key \<in> snd ` set ?es" for key
  proof -
    have "key \<in> fst ` set ?raw \<longleftrightarrow> (\<exists>v. (key, v) \<in> set ?raw)"
      by force
    then show ?thesis
      by (simp only: raw_height_map_member) blast
  qed
  have occ: "(\<exists>p \<in> set points. in_cell x_bins y_bins key p) \<longleftrightarrow> key \<in> fst ` set ?raw" for key
    by (simp only: keys occupied_cell_iff [OF assms])
  have est: "let zs = cell_heights points x_bins y_bins key; n = length zs in
          0 < n \<and>
          map_of ?raw key = Some (Some (sort zs ! nat (max 0 \<lfloor>real n * (5 / 100)\<rfloor>))) \<and>
          nat (max 0 \<lfloor>real n * (5 / 100)\<rfloor>) = n div 20 \<and>
          Min (set zs) \<le> sort zs ! nat (max 0 \<lfloor>real n * (5 / 100)\<rfloor>) \<and>
          sort zs ! nat (max 0 \<lfloor>real n * (5 / 100)\<rfloor>) \<le> median zs"
    if "\<exists>p \<in> set points. in_cell x_bins y_bins key p" for key
  proof -
    let ?zs = "cell_heights points x_bins y_bins key"
    from that have k: "key \<in> snd ` set ?es"
      by (simp only: occupied_cell_iff [OF assms])
    have zs: "cell_z_values points x_bins y_bins key = ?zs"
      by (rule cell_z_values_eq_cell_heights [OF assms])
    have ne: "?zs \<noteq> []"
      using cell_z_values_nonempty [OF k] unfolding zs .
    have "(key, cell_estimate ?zs) \<in> set ?raw"
      using k by (simp add: raw_height_map_member zs)
    then have m: "map_of ?raw key = Some (cell_estimate ?zs)"
      using dist by (simp only: map_of_eq_Some_iff)
    have idx: "nat (max 0 \<lfloor>real (length ?zs) * (5 / 100)\<rfloor>) = length ?zs div 20"
      using index_5th_percentile_eq [of "length ?zs"] by (simp add: index_5th_percentile_def)
    show ?thesis
      unfolding Let_def idx
      using ne m cell_estimate_nonempty [OF ne] percentile_ge_Min [OF ne]
        percentile_le_median [OF ne]
      by simp
  qed
  show ?thesis
    using dist occ est by blast
qed

theorem raw_estimate_percentile_witness:
  "sorted [0, 1, 2 :: real] \<and> sorted [0, 1 :: real] \<and>
   in_cell [0, 1, 2] [0, 1] (0, 0) (1 / 2, 1 / 2, 20) \<and>
   length (cell_heights (map (\<lambda>k. (1 / 2, 1 / 2, real k)) (rev [0..<21]) @ [(3 / 2, 1 / 2, 7)])
     [0, 1, 2] [0, 1] (0, 0)) = 21 \<and>
   map_of (raw_height_map (map (\<lambda>k. (1 / 2, 1 / 2, real k)) (rev [0..<21]) @ [(3 / 2, 1 / 2, 7)])
     [0, 1, 2] [0, 1]) (0, 0) = Some (Some 1) \<and>
   median (cell_heights (map (\<lambda>k. (1 / 2, 1 / 2, real k)) (rev [0..<21]) @ [(3 / 2, 1 / 2, 7)])
     [0, 1, 2] [0, 1] (0, 0)) = 10"
proof -
  let ?pts = "map (\<lambda>k. (1 / 2, 1 / 2, real k)) (rev [0..<21]) @ [(3 / 2, 1 / 2, 7)] :: point list"
  let ?zs = "cell_heights ?pts [0, 1, 2] [0, 1] (0, 0)"
  have h1: "sorted [0, 1, 2 :: real]" and h2: "sorted [0, 1 :: real]" by simp_all
  have c: "in_cell [0, 1, 2] [0, 1] (0, 0) (1 / 2, 1 / 2, 20)"
    by code_simp
  have occ: "\<exists>p \<in> set ?pts. in_cell [0, 1, 2] [0, 1] (0, 0) p"
    by code_simp
  have n: "length ?zs = 21"
    by code_simp
  have r: "sort ?zs ! nat (max 0 \<lfloor>real (length ?zs) * (5 / 100)\<rfloor>) = 1"
    by code_simp
  have m: "median ?zs = 10"
    by code_simp
  have "map_of (raw_height_map ?pts [0, 1, 2] [0, 1]) (0, 0) =
      Some (Some (sort ?zs ! nat (max 0 \<lfloor>real (length ?zs) * (5 / 100)\<rfloor>)))"
    using raw_estimate_percentile [OF h1 h2, of ?pts, THEN conjunct2, THEN conjunct2,
        THEN spec, of "(0, 0)", THEN mp, OF occ]
    unfolding Let_def by (rule conjunct2 [THEN conjunct1])
  then have "map_of (raw_height_map ?pts [0, 1, 2] [0, 1]) (0, 0) = Some (Some 1)"
    by (simp only: r)
  with h1 h2 c n m show ?thesis by blast
qed

subsection \<open>The builder on an empty grid\<close>


lemma valid_entries_empty_iff:
  "valid_entries points x_bins y_bins = [] \<longleftrightarrow>
     (\<forall>p \<in> set points. \<not> valid_mask x_bins y_bins (cell_digitize x_bins y_bins p))"
  by (simp add: valid_entries_def filter_empty_conv)

lemma group_by_cell_empty_iff: "group_by_cell entries = [] \<longleftrightarrow> entries = []"
proof
  assume "group_by_cell entries = []"
  then have "snd ` set entries = {}"
    using group_by_cell_member [of _ _ entries] by (metis empty_iff empty_set equals0I)
  then show "entries = []" by simp
qed (simp add: group_by_cell_def)

lemma raw_height_map_values:
  assumes "(key, v) \<in> set (raw_height_map points x_bins y_bins)"
  shows "\<exists>h. v = Some h"
  using assms cell_estimate_nonempty [OF cell_z_values_nonempty]
  by (auto simp: raw_height_map_member)

lemma occupied_member: "(key, h) \<in> set (occupied height_map) \<longleftrightarrow> (key, Some h) \<in> set height_map"
  by (induction height_map rule: occupied.induct) auto

lemma occupied_empty_iff: "occupied height_map = [] \<longleftrightarrow> (\<forall>e \<in> set height_map. snd e = None)"
  by (induction height_map rule: occupied.induct) auto

lemma occupied_raw_empty_iff:
  "occupied (raw_height_map points x_bins y_bins) = [] \<longleftrightarrow>
     valid_entries points x_bins y_bins = []"
proof
  assume "valid_entries points x_bins y_bins = []"
  then show "occupied (raw_height_map points x_bins y_bins) = []"
    by (simp add: raw_height_map_def group_by_cell_def)
next
  assume occ: "occupied (raw_height_map points x_bins y_bins) = []"
  have "raw_height_map points x_bins y_bins = []"
  proof (rule ccontr)
    assume "raw_height_map points x_bins y_bins \<noteq> []"
    then obtain key v where kv: "(key, v) \<in> set (raw_height_map points x_bins y_bins)"
      by (cases "raw_height_map points x_bins y_bins") auto
    then obtain h where "v = Some h" using raw_height_map_values by blast
    with kv occ show False by (auto simp: occupied_empty_iff)
  qed
  then show "valid_entries points x_bins y_bins = []"
    by (simp add: raw_height_map_def group_by_cell_empty_iff)
qed

lemma calculate_height_map_fails_iff:
  "calculate_height_map points x_bins y_bins threshold = Inl ValueError \<longleftrightarrow>
     valid_entries points x_bins y_bins = []"
  unfolding calculate_height_map_def smooth_height_map_def cKDTree_def grid_centers_def
  by (simp add: occupied_raw_empty_iff)

text \<open>
  Claim C6. For ascending edges, the builder fails exactly when no input point lies in the
  grid extent. The failure is the \<^verbatim>\<open>ValueError\<close> that the spatial-index constructor raises
  for the empty array of cell centers; it leaves \<^verbatim>\<open>calculate_height_map\<close> uncaught, so the
  caller gets the error and no height map.
\<close>

theorem calculate_height_map_empty_grid:
  assumes "sorted x_bins" "sorted y_bins"
  shows "(\<forall>p \<in> set points. \<not> in_grid_extent x_bins y_bins p) \<longleftrightarrow>
     calculate_height_map points x_bins y_bins threshold = Inl ValueError"
  unfolding calculate_height_map_fails_iff valid_entries_empty_iff
  by (simp add: valid_mask_digitize_iff [OF assms])

theorem calculate_height_map_empty_grid_witness:
  "sorted [0, 1 :: real] \<and> sorted [0, 2 :: real] \<and>
   \<not> in_grid_extent [0, 1] [0, 2] (1, 1, 7) \<and>
   \<not> in_grid_extent [0, 1] [0, 2] (- 3, 1, 0) \<and>
   calculate_height_map [(1, 1, 7), (- 3, 1, 0)] [0, 1] [0, 2] (5 / 100) = Inl ValueError"
proof -
  have h1: "sorted [0, 1 :: real]" and h2: "sorted [0, 2 :: real]" by simp_all
  have e: "\<not> in_grid_extent [0, 1] [0, 2] (1, 1, 7)" "\<not> in_grid_extent [0, 1] [0, 2] (- 3, 1, 0)"
    by (simp_all add: in_grid_extent_def)
  then have "\<forall>p \<in> set [(1, 1, 7), (- 3, 1, 0)]. \<not> in_grid_extent [0, 1] [0, 2] p"
    by simp
  then show ?thesis
    using calculate_height_map_empty_grid [OF h1 h2, of "[(1, 1, 7), (- 3, 1, 0)]" "5 / 100"] e h1 h2
    by blast
qed

subsection \<open>Smoothing\<close>


lemma filter_upt_nth:
  "map (\<lambda>idx. f (xs ! idx)) (filter (\<lambda>idx. P (xs ! idx)) [0..<length xs]) = map f (filter P xs)"
proof -
  have "map f (filter P xs) = map f (filter P (map (nth xs) [0..<length xs]))"
    by (simp only: map_nth)
  also have "\<dots> = map (\<lambda>idx. f (xs ! idx)) (filter (\<lambda>idx. P (xs ! idx)) [0..<length xs])"
    by (simp add: filter_map comp_def)
  finally show ?thesis by simp
qed

lemma neighbor_heights_eq:
  "map (\<lambda>idx. map snd grid ! idx)
       (query_ball_point (map (cell_center x_bins y_bins) (map fst grid)) q r) =
     map snd (filter (\<lambda>e. within_radius r q (cell_center x_bins y_bins (fst e))) grid)"
proof -
  have "map (\<lambda>idx. map snd grid ! idx)
       (query_ball_point (map (cell_center x_bins y_bins) (map fst grid)) q r) =
     map (\<lambda>idx. snd (grid ! idx))
       (filter (\<lambda>idx. within_radius r q (cell_center x_bins y_bins (fst (grid ! idx))))
          [0..<length grid])"
    unfolding query_ball_point_def
    by (auto intro!: map_cong filter_cong)
  then show ?thesis
    by (simp only: filter_upt_nth [of snd grid "\<lambda>e. within_radius r q (cell_center x_bins y_bins (fst e))"])
qed

lemma within_radius_self: "within_radius 1 q q"
  by (simp add: within_radius_def)

lemma neighbourhood_min_eq:
  "neighbourhood_min r grid x_bins y_bins key =
     Min (set (map snd (filter
       (\<lambda>e. within_radius r (cell_center x_bins y_bins key) (cell_center x_bins y_bins (fst e)))
       grid)))"
proof -
  have "snd ` {e \<in> set grid.
       within_radius r (cell_center x_bins y_bins key) (cell_center x_bins y_bins (fst e))} =
     set (map snd (filter
       (\<lambda>e. within_radius r (cell_center x_bins y_bins key) (cell_center x_bins y_bins (fst e)))
       grid))"
    by simp
  then show ?thesis
    unfolding neighbourhood_min_def by (rule arg_cong)
qed

lemma smooth_cell_snapshot:
  assumes "(key, h0) \<in> set grid"
  shows "smooth_cell (map (cell_center x_bins y_bins) (map fst grid)) (map snd grid)
           x_bins y_bins threshold key h =
         (let m = neighbourhood_min 1 grid x_bins y_bins key
          in if \<bar>h - m\<bar> > threshold then m else h)"
proof -
  let ?ns = "map snd (filter
       (\<lambda>e. within_radius 1 (cell_center x_bins y_bins key) (cell_center x_bins y_bins (fst e)))
       grid)"
  have "(key, h0) \<in> set (filter
       (\<lambda>e. within_radius 1 (cell_center x_bins y_bins key) (cell_center x_bins y_bins (fst e)))
       grid)"
    using assms by (simp add: within_radius_self)
  then have "snd (key, h0) \<in> set ?ns"
    unfolding set_map by (rule imageI)
  then have ne: "?ns \<noteq> []"
    by (metis empty_iff list.set(1))
  then have "min_list ?ns = Min (set ?ns)"
    by (rule min_list_Min)
  then show ?thesis
    unfolding smooth_cell_def search_radius_def neighbor_heights_eq neighbourhood_min_eq Let_def
    using ne by simp
qed

lemma smooth_height_map_eq:
  assumes "occupied height_map \<noteq> []"
  shows "smooth_height_map height_map x_bins y_bins threshold =
     Inr (map (\<lambda>(key, h). (key,
            let m = neighbourhood_min 1 (occupied height_map) x_bins y_bins key
            in if \<bar>h - m\<bar> > threshold then m else h))
          (occupied height_map))"
proof -
  have "smoothing_loop (grid_centers height_map x_bins y_bins) (grid_values height_map)
          x_bins y_bins threshold (occupied height_map) =
        map (\<lambda>(key, h). (key,
            let m = neighbourhood_min 1 (occupied height_map) x_bins y_bins key
            in if \<bar>h - m\<bar> > threshold then m else h))
          (occupied height_map)"
    unfolding smoothing_loop_def grid_centers_def grid_values_def
  proof (rule map_cong [OF refl])
    fix e assume mem: "e \<in> set (occupied height_map)"
    obtain key h where e: "e = (key, h)" by (cases e)
    show "(case e of (key, height) \<Rightarrow>
            (key, smooth_cell (map (cell_center x_bins y_bins) (map fst (occupied height_map)))
               (map snd (occupied height_map)) x_bins y_bins threshold key height)) =
          (case e of (key, h) \<Rightarrow> (key,
            let m = neighbourhood_min 1 (occupied height_map) x_bins y_bins key
            in if \<bar>h - m\<bar> > threshold then m else h))"
      using mem unfolding e by (simp only: prod.case smooth_cell_snapshot)
  qed
  then show ?thesis
    using assms by (simp add: smooth_height_map_def cKDTree_def grid_centers_def)
qed

lemma keys_occupied_subset: "set (map fst (occupied height_map)) \<subseteq> set (map fst height_map)"
  by (induction height_map rule: occupied.induct) auto

lemma distinct_occupied:
  "distinct (map fst height_map) \<Longrightarrow> distinct (map fst (occupied height_map))"
proof (induction height_map rule: occupied.induct)
  case (3 key h height_map)
  then show ?case using keys_occupied_subset [of height_map] by auto
qed auto

lemma neighbourhood_min_le:
  assumes "(key, h) \<in> set grid"
  shows "neighbourhood_min 1 grid x_bins y_bins key \<le> h"
proof -
  have "(key, h) \<in> {e \<in> set grid.
       within_radius 1 (cell_center x_bins y_bins key) (cell_center x_bins y_bins (fst e))}"
    using assms by (simp add: within_radius_self)
  then have "snd (key, h) \<in> snd ` {e \<in> set grid.
       within_radius 1 (cell_center x_bins y_bins key) (cell_center x_bins y_bins (fst e))}"
    by (rule imageI)
  then show ?thesis
    unfolding neighbourhood_min_def by (intro Min_le) simp_all
qed

lemma neighbourhood_min_cong:
  "set grid = set grid' \<Longrightarrow>
     neighbourhood_min r grid x_bins y_bins key = neighbourhood_min r grid' x_bins y_bins key"
  by (simp add: neighbourhood_min_def)

lemma keys_smoothed: "map fst (map (\<lambda>(key, h). (key, f key h)) grid) = map fst grid"
  by (induction grid) auto

lemma map_of_smoothed:
  assumes "distinct (map fst grid)" "(key, h) \<in> set grid"
  shows "map_of (map (\<lambda>(key, h). (key, f key h)) grid) key = Some (f key h)"
proof -
  have "distinct (map fst (map (\<lambda>(key, h). (key, f key h)) grid))"
    using assms(1) by (simp only: keys_smoothed)
  moreover have "(key, f key h) \<in> set (map (\<lambda>(key, h). (key, f key h)) grid)"
    using assms(2) by force
  ultimately show ?thesis by (rule map_of_is_SomeI)
qed

lemma map_of_smoothed_cong:
  assumes "distinct (map fst grid)" "distinct (map fst grid')" "set grid = set grid'"
  shows "map_of (map (\<lambda>(key, h). (key, f key h)) grid) =
         map_of (map (\<lambda>(key, h). (key, f key h)) grid')"
proof -
  have d1: "distinct (map fst (map (\<lambda>(key, h). (key, f key h)) grid))"
    using assms(1) by (simp only: keys_smoothed)
  have d2: "distinct (map fst (map (\<lambda>(key, h). (key, f key h)) grid'))"
    using assms(2) by (simp only: keys_smoothed)
  have "set (map (\<lambda>(key, h). (key, f key h)) grid) = set (map (\<lambda>(key, h). (key, f key h)) grid')"
    using assms(3) by simp
  then show ?thesis
    using map_of_inject_set [OF d1 d2] by blast
qed

lemma occupied_set_cong:
  assumes "set height_map' = set height_map"
  shows "set (occupied height_map') = set (occupied height_map)"
proof -
  have "e \<in> set (occupied height_map') \<longleftrightarrow> e \<in> set (occupied height_map)" for e
    using assms by (cases e) (simp add: occupied_member)
  then show ?thesis by blast
qed

text \<open>
  Claim C2 as amended. In a raw height map with distinct keys (a dict), let cell \<open>key\<close> have
  the raw estimate \<open>h\<close>. The pass succeeds, the cell itself is among the cells found
  within the radius, and the final estimate of the cell is \<open>m\<close> if \<open>\<bar>h - m\<bar>\<close> exceeds
  the threshold and \<open>h\<close> otherwise, where \<open>m\<close> is the minimum raw estimate over the occupied
  cells whose center lies within Euclidean distance \<open>1\<close> of the cell's center. The distance
  is measured in the unit of the bin edges; it is the constant \<open>1\<close> whatever the cell size
  is. Every query reads the raw estimates only, and the resulting mapping is the same for
  every order of the cells in the raw map. The loop body keeps \<open>h\<close> when a query finds no
  neighbour.
\<close>

theorem smoothing_pass_spec:
  assumes "distinct (map fst height_map)" and "(key, Some h) \<in> set height_map"
  shows "\<exists>out. smooth_height_map height_map x_bins y_bins threshold = Inr out \<and>
     (key, h) \<in> {e \<in> set (occupied height_map).
        within_radius 1 (cell_center x_bins y_bins key) (cell_center x_bins y_bins (fst e))} \<and>
     map_of out key =
       Some (let m = neighbourhood_min 1 (occupied height_map) x_bins y_bins key
             in if \<bar>h - m\<bar> > threshold then m else h) \<and>
     (\<forall>height_map'. mset height_map' = mset height_map \<longrightarrow>
        (\<exists>out'. smooth_height_map height_map' x_bins y_bins threshold = Inr out' \<and>
           map_of out' = map_of out)) \<and>
     (\<forall>kdtree gv. query_ball_point kdtree (cell_center x_bins y_bins key) 1 = [] \<longrightarrow>
        smooth_cell kdtree gv x_bins y_bins threshold key h = h)"
proof -
  let ?f = "\<lambda>grid key h. let m = neighbourhood_min 1 grid x_bins y_bins key
                 in if \<bar>h - m\<bar> > threshold then m else h"
  let ?out = "\<lambda>hm. map (\<lambda>(key, h). (key, ?f (occupied hm) key h)) (occupied hm)"
  have mem: "(key, h) \<in> set (occupied height_map)"
    using assms(2) by (simp add: occupied_member)
  then have ne: "occupied height_map \<noteq> []" by auto
  have dist: "distinct (map fst (occupied height_map))"
    using assms(1) by (rule distinct_occupied)
  have out: "smooth_height_map height_map x_bins y_bins threshold = Inr (?out height_map)"
    by (rule smooth_height_map_eq [OF ne])
  have self: "(key, h) \<in> {e \<in> set (occupied height_map).
        within_radius 1 (cell_center x_bins y_bins key) (cell_center x_bins y_bins (fst e))}"
    using mem by (simp add: within_radius_self)
  have val: "map_of (?out height_map) key = Some (?f (occupied height_map) key h)"
    by (rule map_of_smoothed [OF dist mem])
  have perm: "\<exists>out'. smooth_height_map hm' x_bins y_bins threshold = Inr out' \<and>
           map_of out' = map_of (?out height_map)"
    if p: "mset hm' = mset height_map" for hm'
  proof -
    have s: "set hm' = set height_map" using p by (rule mset_eq_setD)
    have so: "set (occupied hm') = set (occupied height_map)"
      using s by (rule occupied_set_cong)
    have "mset (map fst hm') = mset (map fst height_map)" using p by simp
    then have "distinct (map fst hm')"
      using assms(1) by (metis distinct_count_atmost_1 mset_eq_imp_distinct_iff)
    then have dist': "distinct (map fst (occupied hm'))" by (rule distinct_occupied)
    have ne': "occupied hm' \<noteq> []" using so ne by (metis set_empty)
    have "smooth_height_map hm' x_bins y_bins threshold = Inr (?out hm')"
      by (rule smooth_height_map_eq [OF ne'])
    moreover have "neighbourhood_min 1 (occupied hm') x_bins y_bins k =
        neighbourhood_min 1 (occupied height_map) x_bins y_bins k" for k
      by (rule neighbourhood_min_cong [OF so])
    then have "map_of (?out hm') = map_of (?out height_map)"
      using map_of_smoothed_cong [OF dist' dist so, of "?f (occupied height_map)"]
      by (simp only:)
    ultimately show ?thesis by blast
  qed
  have none: "smooth_cell kdtree gv x_bins y_bins threshold key h = h"
    if "query_ball_point kdtree (cell_center x_bins y_bins key) 1 = []" for kdtree gv
    using that by (simp add: smooth_cell_def search_radius_def)
  show ?thesis
    using out self val perm none by blast
qed

theorem smoothing_pass_spec_witness:
  "distinct (map fst ([((0, 0), Some 0), ((2, 0), Some 2)] :: (cell \<times> real option) list)) \<and>
   ((2, 0), Some 2) \<in> set ([((0, 0), Some 0), ((2, 0), Some 2)] :: (cell \<times> real option) list) \<and>
   (\<exists>out. smooth_height_map [((0, 0), Some 0), ((2, 0), Some 2)]
             [0, 3 / 10, 6 / 10, 9 / 10] [0, 3 / 10] (5 / 100) = Inr out \<and>
          map_of out (2, 0) = Some 0)"
proof -
  let ?hm = "[((0, 0), Some 0), ((2, 0), Some 2)] :: (cell \<times> real option) list"
  have h1: "distinct (map fst ?hm)" by simp
  have h2: "((2, 0), Some 2) \<in> set ?hm" by simp
  have m: "neighbourhood_min 1 (occupied ?hm) [0, 3 / 10, 6 / 10, 9 / 10] [0, 3 / 10] (2, 0) = 0"
    by code_simp
  show ?thesis
    using smoothing_pass_spec [OF h1 h2, of "[0, 3 / 10, 6 / 10, 9 / 10]" "[0, 3 / 10]" "5 / 100"]
    unfolding m Let_def using h1 h2 by auto
qed

text \<open>
  Claim C2 as stated does not hold, for the radius. On a grid of resolution \<open>0.3\<close> the
  cells \<open>(0, 0)\<close> and \<open>(2, 0)\<close> have centers \<open>0.6\<close> apart, two cells. Within one
  grid-resolution unit of its center cell \<open>(2, 0)\<close>, raw estimate \<open>2\<close>, finds itself only:
  that minimum is \<open>2\<close> and the claim keeps the estimate. The script asks for distance
  \<open>1\<close> in the unit of the edges, finds cell \<open>(0, 0)\<close> as well, and sets the estimate to
  its \<open>0\<close>.
\<close>

theorem smoothing_radius_counterexample:
  "raw_height_map [(1 / 10, 1 / 10, 0), (7 / 10, 1 / 10, 2)] [0, 3 / 10, 6 / 10, 9 / 10] [0, 3 / 10]
     = [((0, 0), Some 0), ((2, 0), Some 2)] \<and>
   calculate_height_map [(1 / 10, 1 / 10, 0), (7 / 10, 1 / 10, 2)]
       [0, 3 / 10, 6 / 10, 9 / 10] [0, 3 / 10] (5 / 100)
     = Inr [((0, 0), 0), ((2, 0), 0)] \<and>
   neighbourhood_min (3 / 10) [((0, 0), 0), ((2, 0), 2)]
       [0, 3 / 10, 6 / 10, 9 / 10] [0, 3 / 10] (2, 0) = 2"
  by code_simp

text \<open>
  Claim C10. In a raw height map with distinct keys, the smoothed estimate of an occupied
  cell is at most its raw estimate \<open>h\<close>: the cell is among its own neighbours, so the
  neighbourhood minimum is at most \<open>h\<close>, and the result is \<open>h\<close> or that minimum.
\<close>

theorem smoothing_never_raises:
  assumes "distinct (map fst height_map)" and "(key, Some h) \<in> set height_map"
  shows "\<exists>out h'. smooth_height_map height_map x_bins y_bins threshold = Inr out \<and>
     map_of out key = Some h' \<and> h' \<le> h \<and>
     neighbourhood_min 1 (occupied height_map) x_bins y_bins key \<le> h \<and>
     (h' = h \<or> h' = neighbourhood_min 1 (occupied height_map) x_bins y_bins key)"
proof -
  let ?m = "neighbourhood_min 1 (occupied height_map) x_bins y_bins key"
  let ?h' = "if \<bar>h - ?m\<bar> > threshold then ?m else h"
  have mem: "(key, h) \<in> set (occupied height_map)"
    using assms(2) by (simp add: occupied_member)
  then have ne: "occupied height_map \<noteq> []" by auto
  have le: "?m \<le> h" by (rule neighbourhood_min_le [OF mem])
  have "map_of (map (\<lambda>(key, h). (key,
            let m = neighbourhood_min 1 (occupied height_map) x_bins y_bins key
            in if \<bar>h - m\<bar> > threshold then m else h)) (occupied height_map)) key = Some ?h'"
    using map_of_smoothed [OF distinct_occupied [OF assms(1)] mem,
        of "\<lambda>key h. let m = neighbourhood_min 1 (occupied height_map) x_bins y_bins key
            in if \<bar>h - m\<bar> > threshold then m else h"]
    by (simp add: Let_def)
  moreover have "?h' \<le> h" using le by simp
  moreover have "?h' = h \<or> ?h' = ?m" by simp
  ultimately show ?thesis
    using smooth_height_map_eq [OF ne, of x_bins y_bins threshold] le by blast
qed

theorem smoothing_never_raises_witness:
  "distinct (map fst ([((0, 0), Some 3), ((1, 0), Some 1)] :: (cell \<times> real option) list)) \<and>
   ((0, 0), Some 3) \<in> set ([((0, 0), Some 3), ((1, 0), Some 1)] :: (cell \<times> real option) list) \<and>
   (\<exists>out h'. smooth_height_map [((0, 0), Some 3), ((1, 0), Some 1)] [0, 1 / 2, 1] [0, 1 / 2] (1 / 5)
        = Inr out \<and> map_of out (0, 0) = Some h' \<and> h' \<le> 3)"
proof -
  let ?hm = "[((0, 0), Some 3), ((1, 0), Some 1)] :: (cell \<times> real option) list"
  have h1: "distinct (map fst ?hm)" by simp
  have h2: "((0, 0), Some 3) \<in> set ?hm" by simp
  show ?thesis
    using smoothing_never_raises [OF h1 h2, of "[0, 1 / 2, 1]" "[0, 1 / 2]" "1 / 5"] h1 h2
    by blast
qed

lemma smooth_cell_idem:
  "smooth_cell kdtree gv x_bins y_bins threshold key
     (smooth_cell kdtree gv x_bins y_bins threshold key h) =
   smooth_cell kdtree gv x_bins y_bins threshold key h"
  by (simp add: smooth_cell_def Let_def)

text \<open>
  Claim C9 as amended. Running the smoothing loop again on its own output, while the
  neighbour queries still read the kd-tree and the \<^verbatim>\<open>grid_values\<close> built from the original
  raw map, changes nothing: this holds for any snapshot, and so for the output of step 4
  against the snapshot of the raw map it was computed from.
\<close>

theorem smoothing_loop_idempotent_on_snapshot:
  "smoothing_loop kdtree gv x_bins y_bins threshold
       (smoothing_loop kdtree gv x_bins y_bins threshold items) =
     smoothing_loop kdtree gv x_bins y_bins threshold items \<and>
   (\<forall>out. smooth_height_map height_map x_bins y_bins threshold = Inr out \<longrightarrow>
      smoothing_loop (grid_centers height_map x_bins y_bins) (grid_values height_map)
        x_bins y_bins threshold out = out)"
proof -
  have idem: "smoothing_loop kd g x_bins y_bins threshold
       (smoothing_loop kd g x_bins y_bins threshold its) =
     smoothing_loop kd g x_bins y_bins threshold its" for kd g its
    unfolding smoothing_loop_def
    by (induction its) (auto simp: smooth_cell_idem)
  have "smoothing_loop (grid_centers height_map x_bins y_bins) (grid_values height_map)
        x_bins y_bins threshold out = out"
    if "smooth_height_map height_map x_bins y_bins threshold = Inr out" for out
  proof -
    from that have "out = smoothing_loop (grid_centers height_map x_bins y_bins)
        (grid_values height_map) x_bins y_bins threshold (occupied height_map)"
      by (auto simp: smooth_height_map_def cKDTree_def split: if_splits)
    then show ?thesis using idem by simp
  qed
  with idem show ?thesis by blast
qed

theorem smoothing_loop_idempotent_on_snapshot_witness:
  "smooth_height_map [((0, 0), Some 0), ((1, 0), Some 1), ((2, 0), Some 2)]
       [0, 9 / 10, 18 / 10, 27 / 10] [0, 1] (5 / 100)
     = Inr [((0, 0), 0), ((1, 0), 0), ((2, 0), 1)] \<and>
   smoothing_loop
       (grid_centers [((0, 0), Some 0), ((1, 0), Some 1), ((2, 0), Some 2)]
          [0, 9 / 10, 18 / 10, 27 / 10] [0, 1])
       (grid_values [((0, 0), Some 0), ((1, 0), Some 1), ((2, 0), Some 2)])
       [0, 9 / 10, 18 / 10, 27 / 10] [0, 1] (5 / 100)
       [((0, 0), 0), ((1, 0), 0), ((2, 0), 1)]
     = [((0, 0), 0), ((1, 0), 0), ((2, 0), 1)]"
proof -
  have e: "smooth_height_map [((0, 0), Some 0), ((1, 0), Some 1), ((2, 0), Some 2)]
       [0, 9 / 10, 18 / 10, 27 / 10] [0, 1] (5 / 100)
     = Inr [((0, 0), 0), ((1, 0), 0), ((2, 0), 1)]"
    by code_simp
  show ?thesis
    using smoothing_loop_idempotent_on_snapshot [THEN conjunct2, THEN spec, THEN mp, OF e] e
    by blast
qed

text \<open>
  Claim C9 as stated does not hold: step 4 applied to its own result, which rebuilds
  \<^verbatim>\<open>grid_values\<close> from the smoothed estimates, can change it. Three cells in a row, centers
  \<open>0.9\<close> apart, raw estimates \<open>0, 1, 2\<close>: the first pass gives \<open>0, 0, 1\<close> (the third
  cell is out of reach of the first), the second pass gives \<open>0, 0, 0\<close>.
\<close>

theorem smoothing_not_idempotent_counterexample:
  "raw_height_map [(1 / 10, 1 / 2, 0), (1, 1 / 2, 1), (2, 1 / 2, 2)]
       [0, 9 / 10, 18 / 10, 27 / 10] [0, 1]
     = [((0, 0), Some 0), ((1, 0), Some 1), ((2, 0), Some 2)] \<and>
   smooth_height_map [((0, 0), Some 0), ((1, 0), Some 1), ((2, 0), Some 2)]
       [0, 9 / 10, 18 / 10, 27 / 10] [0, 1] (5 / 100)
     = Inr [((0, 0), 0), ((1, 0), 0), ((2, 0), 1)] \<and>
   smooth_height_map [((0, 0), Some 0), ((1, 0), Some 0), ((2, 0), Some 1)]
       [0, 9 / 10, 18 / 10, 27 / 10] [0, 1] (5 / 100)
     = Inr [((0, 0), 0), ((1, 0), 0), ((2, 0), 0)]"
  by code_simp

subsection \<open>Classifier\<close>


lemma searchsorted_cell_iff:
  assumes "sorted bins"
  shows "(0 \<le> searchsorted_right bins x - 1 \<and> searchsorted_right bins x - 1 < int (length bins) - 1 \<and>
          searchsorted_right bins x - 1 = c) \<longleftrightarrow>
         (\<exists>i. c = int i \<and> i + 1 < length bins \<and> bins ! i \<le> x \<and> x < bins ! (i + 1))"
proof
  assume h: "0 \<le> searchsorted_right bins x - 1 \<and>
      searchsorted_right bins x - 1 < int (length bins) - 1 \<and> searchsorted_right bins x - 1 = c"
  define i where "i = nat c"
  from h have c: "c = int i" and i: "i + 1 < length bins"
    unfolding i_def by linarith+
  from h c have "digitize x bins - 1 = int i"
    by (simp add: searchsorted_right_eq_digitize [OF assms])
  then have "bins ! i \<le> x \<and> x < bins ! (i + 1)"
    by (simp only: digitize_cell_iff [OF assms i])
  with c i show "\<exists>i. c = int i \<and> i + 1 < length bins \<and> bins ! i \<le> x \<and> x < bins ! (i + 1)"
    by blast
next
  assume "\<exists>i. c = int i \<and> i + 1 < length bins \<and> bins ! i \<le> x \<and> x < bins ! (i + 1)"
  then obtain i where c: "c = int i" and i: "i + 1 < length bins"
    and m: "bins ! i \<le> x \<and> x < bins ! (i + 1)" by blast
  from m have "digitize x bins - 1 = int i"
    by (simp only: digitize_cell_iff [OF assms i])
  then show "0 \<le> searchsorted_right bins x - 1 \<and>
      searchsorted_right bins x - 1 < int (length bins) - 1 \<and> searchsorted_right bins x - 1 = c"
    using c i by (simp add: searchsorted_right_eq_digitize [OF assms])
qed

lemma is_non_floor_iff:
  assumes "sorted x_bins" "sorted y_bins"
  shows "is_non_floor x_bins y_bins height_map threshold (x, y, z) \<longleftrightarrow>
    (\<exists>i j h. i + 1 < length x_bins \<and> x_bins ! i \<le> x \<and> x < x_bins ! (i + 1) \<and>
             j + 1 < length y_bins \<and> y_bins ! j \<le> y \<and> y < y_bins ! (j + 1) \<and>
             map_of height_map (int i, int j) = Some h \<and> \<bar>z - h\<bar> > threshold)"
proof -
  let ?cx = "searchsorted_right x_bins x - 1" and ?cy = "searchsorted_right y_bins y - 1"
  have "is_non_floor x_bins y_bins height_map threshold (x, y, z) \<longleftrightarrow>
      (\<exists>cx cy h. (0 \<le> ?cx \<and> ?cx < int (length x_bins) - 1 \<and> ?cx = cx) \<and>
         (0 \<le> ?cy \<and> ?cy < int (length y_bins) - 1 \<and> ?cy = cy) \<and>
         map_of height_map (cx, cy) = Some h \<and> \<bar>z - h\<bar> > threshold)"
    by (auto simp: is_non_floor_def Let_def split: option.splits)
  also have "\<dots> \<longleftrightarrow> (\<exists>i j h. i + 1 < length x_bins \<and> x_bins ! i \<le> x \<and> x < x_bins ! (i + 1) \<and>
             j + 1 < length y_bins \<and> y_bins ! j \<le> y \<and> y < y_bins ! (j + 1) \<and>
             map_of height_map (int i, int j) = Some h \<and> \<bar>z - h\<bar> > threshold)"
    unfolding searchsorted_cell_iff [OF assms(1)] searchsorted_cell_iff [OF assms(2)]
    by blast
  finally show ?thesis .
qed

lemma non_floor_indices_member:
  "idx \<in> set (non_floor_indices points x_bins y_bins height_map threshold) \<longleftrightarrow>
     idx < length points \<and> is_non_floor x_bins y_bins height_map threshold (points ! idx)"
  unfolding non_floor_indices_def
  by (auto simp: in_set_enumerate_eq image_iff)

lemma is_non_floor_not_excluded:
  assumes "is_non_floor x_bins y_bins height_map threshold p"
  shows "valid_mask x_bins y_bins (cell_searchsorted x_bins y_bins p) \<and>
         map_of height_map (cell_searchsorted x_bins y_bins p) \<noteq> None"
  using assms
  by (cases p) (auto simp: is_non_floor_def valid_mask_def cell_searchsorted_def Let_def
      split: if_splits option.splits)

lemma excluded_indices_member:
  "idx \<in> excluded_indices points x_bins y_bins height_map \<longleftrightarrow>
     idx < length points \<and>
     (\<not> valid_mask x_bins y_bins (cell_searchsorted x_bins y_bins (points ! idx)) \<or>
      map_of height_map (cell_searchsorted x_bins y_bins (points ! idx)) = None)"
proof -
  let ?P = "\<lambda>idx. if valid_mask x_bins y_bins (cell_searchsorted x_bins y_bins (points ! idx))
              then map_of height_map (cell_searchsorted x_bins y_bins (points ! idx)) = None
              else True"
  have "idx \<in> excluded_indices points x_bins y_bins height_map \<longleftrightarrow> idx < length points \<and> ?P idx"
    unfolding excluded_indices_def by (simp only: set_filter mem_Collect_eq set_upt atLeastLessThan_iff) simp
  also have "?P idx \<longleftrightarrow>
     (\<not> valid_mask x_bins y_bins (cell_searchsorted x_bins y_bins (points ! idx)) \<or>
      map_of height_map (cell_searchsorted x_bins y_bins (points ! idx)) = None)"
    by (cases "valid_mask x_bins y_bins (cell_searchsorted x_bins y_bins (points ! idx))") simp_all
  finally show ?thesis .
qed

lemma sorted_distinct_non_floor_indices:
  "sorted (non_floor_indices points x_bins y_bins height_map threshold) \<and>
   distinct (non_floor_indices points x_bins y_bins height_map threshold)"
  unfolding non_floor_indices_def
  by (intro conjI sorted_filter distinct_map_filter) simp_all

text \<open>
  Claim C4. For ascending edges, index \<open>idx\<close> is in \<^verbatim>\<open>non_floor_indices\<close> if and only if
  it is the index of a point \<open>(x, y, z)\<close> of the frame for which there is a cell
  \<open>(i, j)\<close> inside the grid bounds with \<open>x\<close> in \<open>[x_bins[i], x_bins[i+1])\<close> and \<open>y\<close> in
  \<open>[y_bins[j], y_bins[j+1])\<close>, the height map has an estimate \<open>h\<close> for that cell, and
  \<open>\<bar>z - h\<bar>\<close> exceeds the threshold. No point whose cell is outside the bounds or has no
  estimate is in the list, and the list is ascending without repetition.
\<close>

theorem non_floor_indices_spec:
  assumes "sorted x_bins" "sorted y_bins"
  shows "(idx \<in> set (non_floor_indices points x_bins y_bins height_map threshold) \<longleftrightarrow>
      idx < length points \<and>
      (case points ! idx of (x, y, z) \<Rightarrow>
         \<exists>i j h. i + 1 < length x_bins \<and> x_bins ! i \<le> x \<and> x < x_bins ! (i + 1) \<and>
                 j + 1 < length y_bins \<and> y_bins ! j \<le> y \<and> y < y_bins ! (j + 1) \<and>
                 map_of height_map (int i, int j) = Some h \<and> \<bar>z - h\<bar> > threshold)) \<and>
    set (non_floor_indices points x_bins y_bins height_map threshold) \<inter>
      excluded_indices points x_bins y_bins height_map = {} \<and>
    sorted (non_floor_indices points x_bins y_bins height_map threshold) \<and>
    distinct (non_floor_indices points x_bins y_bins height_map threshold)"
proof -
  obtain x y z where p: "points ! idx = (x, y, z)" by (cases "points ! idx")
  have a: "idx \<in> set (non_floor_indices points x_bins y_bins height_map threshold) \<longleftrightarrow>
      idx < length points \<and>
      (case points ! idx of (x, y, z) \<Rightarrow>
         \<exists>i j h. i + 1 < length x_bins \<and> x_bins ! i \<le> x \<and> x < x_bins ! (i + 1) \<and>
                 j + 1 < length y_bins \<and> y_bins ! j \<le> y \<and> y < y_bins ! (j + 1) \<and>
                 map_of height_map (int i, int j) = Some h \<and> \<bar>z - h\<bar> > threshold)"
    unfolding non_floor_indices_member p
    by (simp only: is_non_floor_iff [OF assms] prod.case)
  have b: "set (non_floor_indices points x_bins y_bins height_map threshold) \<inter>
      excluded_indices points x_bins y_bins height_map = {}"
    using is_non_floor_not_excluded
    by (fastforce simp: non_floor_indices_member excluded_indices_member)
  show ?thesis
    using a b sorted_distinct_non_floor_indices by blast
qed

theorem non_floor_indices_spec_witness:
  "sorted [0, 1, 2 :: real] \<and> sorted [0, 1 :: real] \<and>
   non_floor_indices [(1 / 2, 1 / 2, 0), (3 / 2, 1 / 2, 1), (5, 5, 9), (1, 1 / 2, 0)]
     [0, 1, 2] [0, 1] [((0, 0), 0), ((1, 0), 0)] (15 / 100) = [1] \<and>
   (1::nat) \<in> set (non_floor_indices [(1 / 2, 1 / 2, 0), (3 / 2, 1 / 2, 1), (5, 5, 9), (1, 1 / 2, 0)]
     [0, 1, 2] [0, 1] [((0, 0), 0), ((1, 0), 0)] (15 / 100)) \<and>
   (\<exists>i j h. i + 1 < length [0, 1, 2 :: real] \<and> [0, 1, 2] ! i \<le> (3 / 2 :: real) \<and>
      (3 / 2 :: real) < [0, 1, 2] ! (i + 1) \<and>
      j + 1 < length [0, 1 :: real] \<and> [0, 1] ! j \<le> (1 / 2 :: real) \<and>
      (1 / 2 :: real) < [0, 1] ! (j + 1) \<and>
      map_of [((0, 0), 0), ((1, 0), 0)] (int i, int j) = Some h \<and> \<bar>1 - h\<bar> > (15 / 100 :: real))"
proof -
  let ?pts = "[(1 / 2, 1 / 2, 0), (3 / 2, 1 / 2, 1), (5, 5, 9), (1, 1 / 2, 0)] :: point list"
  have h1: "sorted [0, 1, 2 :: real]" and h2: "sorted [0, 1 :: real]" by simp_all
  have e: "non_floor_indices ?pts [0, 1, 2] [0, 1] [((0, 0), 0), ((1, 0), 0)] (15 / 100) = [1]"
    by code_simp
  then have m: "(1::nat) \<in> set (non_floor_indices ?pts [0, 1, 2] [0, 1] [((0, 0), 0), ((1, 0), 0)] (15 / 100))"
    by simp
  note t = non_floor_indices_spec [OF h1 h2, of 1 ?pts "[((0, 0), 0), ((1, 0), 0)]" "15 / 100",
      THEN conjunct1, THEN iffD1, OF m, THEN conjunct2]
  have "?pts ! 1 = (3 / 2, 1 / 2, 1)" by simp
  with t have "\<exists>i j h. i + 1 < length [0, 1, 2 :: real] \<and> [0, 1, 2] ! i \<le> (3 / 2 :: real) \<and>
      (3 / 2 :: real) < [0, 1, 2] ! (i + 1) \<and>
      j + 1 < length [0, 1 :: real] \<and> [0, 1] ! j \<le> (1 / 2 :: real) \<and>
      (1 / 2 :: real) < [0, 1] ! (j + 1) \<and>
      map_of [((0, 0), 0), ((1, 0), 0)] (int i, int j) = Some h \<and> \<bar>1 - h\<bar> > (15 / 100 :: real)"
    by (simp only: prod.case)
  with h1 h2 e m show ?thesis by blast
qed

text \<open>
  Claim C5 as stated does not hold: with \<^verbatim>\<open>floor_indices\<close> the complement of the non-floor
  set, an excluded point is a floor index too. The second point below lies outside the
  grid; it is excluded, and it is in \<^verbatim>\<open>floor_indices\<close>.
\<close>

theorem partition_counterexample:
  "calculate_height_map [(1 / 2, 1 / 2, 0), (5, 5, 0)] [0, 1] [0, 1] (5 / 100) = Inr [((0, 0), 0)] \<and>
   non_floor_indices [(1 / 2, 1 / 2, 0), (5, 5, 0)] [0, 1] [0, 1] [((0, 0), 0)] (15 / 100) = [] \<and>
   1 \<in> floor_indices [(1 / 2, 1 / 2, 0), (5, 5, 0)] [0, 1] [0, 1] [((0, 0), 0)] (15 / 100) \<inter>
        excluded_indices [(1 / 2, 1 / 2, 0), (5, 5, 0)] [0, 1] [0, 1] [((0, 0), 0)]"
  by code_simp

text \<open>
  Claim C5 as amended. \<^verbatim>\<open>floor_indices\<close> (the index range minus the non-floor set) and the
  non-floor set are disjoint and together are the full index range. The excluded points
  are not a third class beside them: they are all floor indices. The three sets that are
  pairwise disjoint and cover the index range are the floor indices that are not
  excluded, the non-floor indices, and the excluded indices.
\<close>

theorem floor_non_floor_partition:
  "floor_indices points x_bins y_bins height_map threshold \<inter>
     set (non_floor_indices points x_bins y_bins height_map threshold) = {} \<and>
   floor_indices points x_bins y_bins height_map threshold \<union>
     set (non_floor_indices points x_bins y_bins height_map threshold) = {0..<length points} \<and>
   excluded_indices points x_bins y_bins height_map
     \<subseteq> floor_indices points x_bins y_bins height_map threshold \<and>
   (floor_indices points x_bins y_bins height_map threshold
      - excluded_indices points x_bins y_bins height_map) \<inter>
     set (non_floor_indices points x_bins y_bins height_map threshold) = {} \<and>
   set (non_floor_indices points x_bins y_bins height_map threshold) \<inter>
     excluded_indices points x_bins y_bins height_map = {} \<and>
   (floor_indices points x_bins y_bins height_map threshold
      - excluded_indices points x_bins y_bins height_map) \<union>
     set (non_floor_indices points x_bins y_bins height_map threshold) \<union>
     excluded_indices points x_bins y_bins height_map = {0..<length points}"
proof -
  let ?F = "floor_indices points x_bins y_bins height_map threshold"
  let ?N = "set (non_floor_indices points x_bins y_bins height_map threshold)"
  let ?E = "excluded_indices points x_bins y_bins height_map"
  have F: "?F = {0..<length points} - ?N"
    by (simp add: floor_indices_def)
  have N: "?N \<subseteq> {0..<length points}"
    by (auto simp: non_floor_indices_member)
  have E: "?E \<subseteq> {0..<length points}"
    by (auto simp: excluded_indices_member)
  have NE: "?N \<inter> ?E = {}"
    using is_non_floor_not_excluded
    by (fastforce simp: non_floor_indices_member excluded_indices_member)
  show ?thesis
    unfolding F using N E NE by blast
qed

theorem floor_non_floor_partition_witness:
  "floor_indices [(1 / 2, 1 / 2, 0), (1 / 2, 1 / 2, 1), (5, 5, 0)] [0, 1] [0, 1] [((0, 0), 0)] (15 / 100)
     = {0, 2} \<and>
   non_floor_indices [(1 / 2, 1 / 2, 0), (1 / 2, 1 / 2, 1), (5, 5, 0)] [0, 1] [0, 1] [((0, 0), 0)] (15 / 100)
     = [1] \<and>
   excluded_indices [(1 / 2, 1 / 2, 0), (1 / 2, 1 / 2, 1), (5, 5, 0)] [0, 1] [0, 1] [((0, 0), 0)]
     = {2} \<and>
   excluded_indices [(1 / 2, 1 / 2, 0), (1 / 2, 1 / 2, 1), (5, 5, 0)] [0, 1] [0, 1] [((0, 0), 0)]
     \<subseteq> floor_indices [(1 / 2, 1 / 2, 0), (1 / 2, 1 / 2, 1), (5, 5, 0)] [0, 1] [0, 1] [((0, 0), 0)] (15 / 100)"
proof -
  let ?pts = "[(1 / 2, 1 / 2, 0), (1 / 2, 1 / 2, 1), (5, 5, 0)] :: point list"
  have n: "non_floor_indices ?pts [0, 1] [0, 1] [((0, 0), 0)] (15 / 100) = [1]"
    by code_simp
  have f: "floor_indices ?pts [0, 1] [0, 1] [((0, 0), 0)] (15 / 100) = {0, 2}"
    unfolding floor_indices_def n by (simp add: upt_rec_numeral) auto
  have e: "excluded_indices ?pts [0, 1] [0, 1] [((0, 0), 0)] = {2}"
    by code_simp
  show ?thesis
    using floor_non_floor_partition [of ?pts "[0, 1]" "[0, 1]" "[((0, 0), 0)]" "15 / 100",
        THEN conjunct2, THEN conjunct2, THEN conjunct1] n f e
    by simp
qed

end
